theory Spec2Isabelle
  imports Main
begin

section \<open>Regular expressions as used by ShubParseReference\<close>

text \<open>
  The parser of \<^verbatim>\<open>conveyorPacker_shub.go\<close> builds one anchored regular expression
  out of five component patterns. Only literals, character classes, concatenation,
  the optional group \<^verbatim>\<open>(...)?\<close> and the bounded repetition \<^verbatim>\<open>{m,n}\<close> occur there;
  \<open>Star\<close> is needed only for the grammar as the specification words it.
  Strings are byte sequences, as in Go.
\<close>

datatype citem = Ch char | Rg char char

datatype rexp =
    Lit char
  | Cls "citem list"
  | Seq rexp rexp
  | Opt rexp
  | Rep nat nat rexp
  | Star rexp

fun in_item :: "char \<Rightarrow> citem \<Rightarrow> bool" where
  "in_item c (Ch d) = (c = d)"
| "in_item c (Rg lo hi) = ((of_char lo :: nat) \<le> of_char c \<and> (of_char c :: nat) \<le> of_char hi)"

definition in_class :: "citem list \<Rightarrow> char \<Rightarrow> bool" where
  "in_class its c = list_ex (in_item c) its"

text \<open>
  \<open>iter f m n s\<close>: every remainder of \<open>s\<close> after between \<open>m\<close> and \<open>n\<close> rounds of \<open>f\<close>,
  the longest consumption first (the repetition is greedy).
\<close>

fun iter :: "(string \<Rightarrow> string list) \<Rightarrow> nat \<Rightarrow> nat \<Rightarrow> string \<Rightarrow> string list" where
  "iter f m 0 s = (if m = 0 then [s] else [])"
| "iter f m (Suc n) s = concat (map (iter f (m - 1) n) (f s)) @ (if m = 0 then [s] else [])"

text \<open>\<open>rmatch r s\<close>: the remainders of \<open>s\<close> after every way of matching \<open>r\<close> at its start.\<close>

primrec rmatch :: "rexp \<Rightarrow> string \<Rightarrow> string list" where
  "rmatch (Lit c) = (\<lambda>s. case s of [] \<Rightarrow> [] | x # xs \<Rightarrow> if x = c then [xs] else [])"
| "rmatch (Cls its) = (\<lambda>s. case s of [] \<Rightarrow> [] | x # xs \<Rightarrow> if in_class its x then [xs] else [])"
| "rmatch (Seq a b) = (\<lambda>s. concat (map (rmatch b) (rmatch a s)))"
| "rmatch (Opt a) = (\<lambda>s. rmatch a s @ [s])"
| "rmatch (Rep m n a) = (\<lambda>s. iter (rmatch a) m n s)"
| "rmatch (Star a) = (\<lambda>s. iter (rmatch a) 0 (length s) s)"

definition full_match :: "rexp \<Rightarrow> string \<Rightarrow> bool" where
  "full_match r s = ([] \<in> set (rmatch r s))"

text \<open>
  Go's \<^verbatim>\<open>(*Regexp).FindString\<close> returns the text of the leftmost match, and the empty
  string when there is none. The expression of the parser is anchored with
  \<^verbatim>\<open>^\<close> and \<^verbatim>\<open>$\<close> (no multi-line flag), so its only possible match is the whole text.
\<close>

definition FindString :: "rexp \<Rightarrow> string \<Rightarrow> string" where
  "FindString r src = (if full_match r src then src else [])"

subsection \<open>The component patterns\<close>

text \<open>The bracket expressions of the five patterns, in the order the source lists them.\<close>

definition registryChars :: "citem list" where
  "registryChars = [Ch CHR ''-'', Rg CHR ''a'' CHR ''z'', Rg CHR ''A'' CHR ''Z'',
                    Rg CHR ''0'' CHR ''9'', Ch CHR ''/'']"

definition nameChars :: "citem list" where
  "nameChars = [Ch CHR ''-'', Rg CHR ''a'' CHR ''z'', Rg CHR ''A'' CHR ''Z'', Rg CHR ''0'' CHR ''9'']"

definition containerChars :: "citem list" where
  "containerChars = [Ch CHR ''-'', Ch CHR ''_'', Ch CHR ''.'', Rg CHR ''a'' CHR ''z'',
                     Rg CHR ''A'' CHR ''Z'', Rg CHR ''0'' CHR ''9'']"

definition tagChars :: "citem list" where
  "tagChars = [Ch CHR ''-'', Ch CHR ''_'', Ch CHR ''.'', Rg CHR ''a'' CHR ''z'',
               Rg CHR ''A'' CHR ''Z'', Rg CHR ''0'' CHR ''9'']"

definition digestChars :: "citem list" where
  "digestChars = [Rg CHR ''a'' CHR ''f'', Rg CHR ''0'' CHR ''9'']"

definition registryRegexp :: rexp where
  "registryRegexp = Opt (Seq (Rep 1 64 (Cls registryChars)) (Lit CHR ''/''))"

definition nameRegexp :: rexp where
  "nameRegexp = Seq (Rep 1 39 (Cls nameChars)) (Lit CHR ''/'')"

definition containerRegexp :: rexp where
  "containerRegexp = Rep 1 64 (Cls containerChars)"

definition tagRegexp :: rexp where
  "tagRegexp = Opt (Seq (Lit CHR '':'') (Rep 1 64 (Cls tagChars)))"

definition digestRegexp :: rexp where
  "digestRegexp = Opt (Seq (Lit CHR ''@'') (Rep 32 32 (Cls digestChars)))"

definition shubRegex :: rexp where
  "shubRegex =
     Seq (Lit CHR ''/'') (Seq (Lit CHR ''/'')
       (Seq registryRegexp (Seq nameRegexp (Seq containerRegexp (Seq tagRegexp digestRegexp)))))"

section \<open>The string functions of Go's standard library that the parser calls\<close>

text \<open>
  All separators in the source are one-character strings. \<^verbatim>\<open>strings.Split\<close> and
  \<^verbatim>\<open>strings.SplitAfterN(s, sep, -1)\<close> cut at every occurrence of the separator; the
  second keeps the separator at the end of each piece but the last.
\<close>

function Split :: "char \<Rightarrow> string \<Rightarrow> string list" where
  "Split sep s =
     (case dropWhile (\<lambda>c. c \<noteq> sep) s of
        [] \<Rightarrow> [s]
      | c # rest \<Rightarrow> takeWhile (\<lambda>c. c \<noteq> sep) s # Split sep rest)"
  by pat_completeness auto
termination
proof (relation "measure (\<lambda>(sep, s). length s)")
  show "wf (measure (\<lambda>(sep, s). length s))" by simp
next
  fix sep :: char and s :: string and c rest
  assume "dropWhile (\<lambda>c. c \<noteq> sep) s = c # rest"
  then have "length (c # rest) \<le> length s"
    by (metis length_dropWhile_le)
  then show "((sep, rest), (sep, s)) \<in> measure (\<lambda>(sep, s). length s)" by simp
qed

function SplitAfter :: "char \<Rightarrow> string \<Rightarrow> string list" where
  "SplitAfter sep s =
     (case dropWhile (\<lambda>c. c \<noteq> sep) s of
        [] \<Rightarrow> [s]
      | c # rest \<Rightarrow> (takeWhile (\<lambda>c. c \<noteq> sep) s @ [c]) # SplitAfter sep rest)"
  by pat_completeness auto
termination
proof (relation "measure (\<lambda>(sep, s). length s)")
  show "wf (measure (\<lambda>(sep, s). length s))" by simp
next
  fix sep :: char and s :: string and c rest
  assume "dropWhile (\<lambda>c. c \<noteq> sep) s = c # rest"
  then have "length (c # rest) \<le> length s"
    by (metis length_dropWhile_le)
  then show "((sep, rest), (sep, s)) \<in> measure (\<lambda>(sep, s). length s)" by simp
qed

declare Split.simps [simp del] SplitAfter.simps [simp del]

definition Contains :: "string \<Rightarrow> char \<Rightarrow> bool" where
  "Contains s c = (c \<in> set s)"

section \<open>ShubURI and ShubParseReference\<close>

definition defaultRegistry :: string where
  "defaultRegistry = ''singularity-hub.org/api/container/''"

record ShubURI =
  registry :: string
  user :: string
  container :: string
  tag :: string
  digest :: string
  defaultReg :: bool

text \<open>The zero value of the struct, which the named result \<^verbatim>\<open>uri\<close> starts from.\<close>

definition zeroURI :: ShubURI where
  "zeroURI = \<lparr>registry = [], user = [], container = [], tag = [], digest = [], defaultReg = False\<rparr>"

text \<open>
  Errors are values. \<open>InvalidURI\<close> is the \<^verbatim>\<open>fmt.Errorf\<close> of the parser, \<open>StatusError\<close>
  the \<^verbatim>\<open>errors.New(res.Status)\<close> of the manifest lookup and \<open>SizeMismatch\<close> the
  \<^verbatim>\<open>fmt.Errorf\<close> of the download (declared length, bytes written). \<open>NetError\<close>,
  \<open>ReadError\<close>, \<open>DecodeError\<close>, \<open>RequestError\<close>, \<open>FileError\<close>, \<open>BundleError\<close> and
  \<open>PackerError\<close> are the errors that the libraries and collaborators hand back.
  \<open>Panic\<close> is a Go run-time panic (slice bounds out of range, index out of range,
  nil pointer dereference), named by the expression that raised it.
\<close>

datatype error =
    InvalidURI string
  | Panic string
  | StatusError string
  | SizeMismatch int int
  | NetError string
  | ReadError string
  | DecodeError string
  | RequestError string
  | FileError string
  | BundleError string
  | PackerError string

definition split_registry :: "string \<Rightarrow> ShubURI \<Rightarrow> ShubURI \<times> string" where
  "split_registry src uri =
     (let pieces = SplitAfter CHR ''/'' src; l = length pieces in
      if l > 2 then
        (uri\<lparr>defaultReg := False, registry := concat (take (l - 2) pieces),
             user := pieces ! (l - 2)\<rparr>, pieces ! (l - 1))
      else if l = 2 then
        (uri\<lparr>defaultReg := True, registry := defaultRegistry,
             user := pieces ! (l - 2)\<rparr>, pieces ! (l - 1))
      else (uri, src))"

text \<open>
  \<^verbatim>\<open>pieces[1]\<close> is read only under \<^verbatim>\<open>strings.Contains\<close>, where the split has at least
  two pieces (lemma \<open>Split_length\<close> below), so the index is in range.
\<close>

definition split_digest :: "string \<Rightarrow> ShubURI \<Rightarrow> ShubURI \<times> string" where
  "split_digest src uri =
     (if Contains src CHR ''@'' then
        (let pieces = Split CHR ''@'' src in
         (uri\<lparr>digest := CHR ''@'' # pieces ! 1\<rparr>, pieces ! 0))
      else (uri, src))"

definition split_tag :: "string \<Rightarrow> ShubURI \<Rightarrow> ShubURI \<times> string" where
  "split_tag src uri =
     (if Contains src CHR '':'' then
        (let pieces = Split CHR '':'' src in
         (uri\<lparr>tag := CHR '':'' # pieces ! 1\<rparr>, pieces ! 0))
      else (uri, src))"

definition ShubParseReference :: "string \<Rightarrow> error + ShubURI" where
  "ShubParseReference src =
     (let found = FindString shubRegex src in
      if src \<noteq> found then Inl (InvalidURI src)
      else if length src < 2 then Inl (Panic ''src[2:]'')
      else
        (let (uri1, src1) = split_registry (drop 2 src) zeroURI;
             (uri2, src2) = split_digest src1 uri1;
             (uri3, src3) = split_tag src2 uri2
         in Inr (uri3\<lparr>container := src3\<rparr>)))"

definition String :: "ShubURI \<Rightarrow> string" where
  "String s = registry s @ user s @ container s @ tag s @ digest s"

section \<open>The grammar of the parser, stated on the parts of a reference\<close>

text \<open>
  What each group of the anchored expression accepts, written as a condition on the
  text of the group: the registry group is empty or 1 to 64 characters of its class
  (which contains the slash) followed by a slash, the name group is 1 to 39 characters
  followed by a slash, the container is 1 to 64 characters, the tag is empty or a colon
  and 1 to 64 characters, the digest is empty or an at-sign and 32 characters.
\<close>

definition all_in :: "citem list \<Rightarrow> string \<Rightarrow> bool" where
  "all_in its w = list_all (in_class its) w"

definition registry_part :: "string \<Rightarrow> bool" where
  "registry_part R =
     (R = [] \<or> (last R = CHR ''/'' \<and> 1 \<le> length (butlast R) \<and> length (butlast R) \<le> 64 \<and>
                all_in registryChars (butlast R)))"

definition name_part :: "string \<Rightarrow> bool" where
  "name_part U =
     (U \<noteq> [] \<and> last U = CHR ''/'' \<and> 1 \<le> length (butlast U) \<and> length (butlast U) \<le> 39 \<and>
      all_in nameChars (butlast U))"

definition container_part :: "string \<Rightarrow> bool" where
  "container_part C = (1 \<le> length C \<and> length C \<le> 64 \<and> all_in containerChars C)"

definition tag_part :: "string \<Rightarrow> bool" where
  "tag_part T =
     (T = [] \<or> (hd T = CHR '':'' \<and> 1 \<le> length (tl T) \<and> length (tl T) \<le> 64 \<and>
                all_in tagChars (tl T)))"

definition digest_part :: "string \<Rightarrow> bool" where
  "digest_part D =
     (D = [] \<or> (hd D = CHR ''@'' \<and> length (tl D) = 32 \<and> all_in digestChars (tl D)))"

definition shub_grammar :: "string \<Rightarrow> bool" where
  "shub_grammar src =
     (\<exists>R U C T D. src = ''//'' @ R @ U @ C @ T @ D \<and>
        registry_part R \<and> name_part U \<and> container_part C \<and> tag_part T \<and> digest_part D)"

section \<open>The grammar as the specification words it\<close>

text \<open>
  \<^verbatim>\<open>(registrySegment{1,64}/)* ownerSegment{1,39}/ containerSegment{1,64}
  (:tagSegment{1,64})? (@digest{32 hex})?\<close> after the two-character prefix, where
  registry and owner segments use \<^verbatim>\<open>[-a-zA-Z0-9]\<close>, container and tag segments also
  allow the dot and the underscore, and the digest is lowercase hexadecimal.
\<close>

definition specSegmentChars :: "citem list" where
  "specSegmentChars = [Ch CHR ''-'', Rg CHR ''a'' CHR ''z'', Rg CHR ''A'' CHR ''Z'',
                       Rg CHR ''0'' CHR ''9'']"

definition specNameChars :: "citem list" where
  "specNameChars = [Ch CHR ''-'', Rg CHR ''a'' CHR ''z'', Rg CHR ''A'' CHR ''Z'',
                    Rg CHR ''0'' CHR ''9'', Ch CHR ''.'', Ch CHR ''_'']"

definition specHexChars :: "citem list" where
  "specHexChars = [Rg CHR ''0'' CHR ''9'', Rg CHR ''a'' CHR ''f'']"

definition specGrammar :: rexp where
  "specGrammar =
     Seq (Lit CHR ''/'') (Seq (Lit CHR ''/'')
       (Seq (Star (Seq (Rep 1 64 (Cls specSegmentChars)) (Lit CHR ''/'')))
       (Seq (Seq (Rep 1 39 (Cls specSegmentChars)) (Lit CHR ''/''))
       (Seq (Rep 1 64 (Cls specNameChars))
       (Seq (Opt (Seq (Lit CHR '':'') (Rep 1 64 (Cls specNameChars))))
            (Opt (Seq (Lit CHR ''@'') (Rep 32 32 (Cls specHexChars)))))))))"

text \<open>
  The canonical form of a reference: the text after the two-character prefix, with the
  default registry put in front when the reference names no registry of its own, that
  is, when the owner's slash is its only slash.
\<close>

definition canonical :: "string \<Rightarrow> string" where
  "canonical src =
     (let s = drop 2 src in
      if count_list s CHR ''/'' \<le> 1 then defaultRegistry @ s else s)"

section \<open>The conveyor packer and its environment\<close>

record shubAPIResponse =
  Image :: string
  Name :: string
  Tag :: string
  Version :: string

text \<open>
  \<^verbatim>\<open>sytypes.Definition\<close> and \<^verbatim>\<open>sytypes.Bundle\<close> are declared in another package; the
  packer reads the \<^verbatim>\<open>Header\<close> map of the first and the \<^verbatim>\<open>Path\<close> of the second only.
  A Go map read for a missing key gives the empty string.
\<close>

record Definition =
  Header :: "(string \<times> string) list"

definition header_get :: "Definition \<Rightarrow> string \<Rightarrow> string" where
  "header_get d k = (case map_of (Header d) k of None \<Rightarrow> [] | Some v \<Rightarrow> v)"

record Bundle =
  Path :: string

text \<open>
  Modelled from the spec: the packer that \<^verbatim>\<open>getLocalPacker\<close> selects is an opaque
  capability of an external collaborator; only its identity is kept.
\<close>

datatype localPacker = NoPacker | LocalPacker nat

text \<open>
  The pointers \<^verbatim>\<open>manifest\<close> and \<^verbatim>\<open>b\<close> are options, \<open>None\<close> for nil. The field
  \<^verbatim>\<open>b\<close> is named \<open>cp_b\<close> here.
\<close>

record ShubConveyorPacker =
  recipe :: Definition
  srcURI :: ShubURI
  tmpfile :: string
  manifest :: "shubAPIResponse option"
  cp_b :: "Bundle option"
  localPacker :: localPacker

definition zeroPacker :: ShubConveyorPacker where
  "zeroPacker = \<lparr>recipe = \<lparr>Header = []\<rparr>, srcURI = zeroURI, tmpfile = [], manifest = None,
                 cp_b = None, localPacker = NoPacker\<rparr>"

subsection \<open>File system and network\<close>

datatype node = Dir | File string

type_synonym filesystem = "(string \<times> node) list"

record world =
  files :: filesystem
  requests :: "string list"

record response =
  StatusCode :: int
  Status :: string
  ContentLength :: int
  Body :: string
  BodyErr :: "string option"

text \<open>
  What the outside decides: the answers of the two HTTP calls, whether a request can be
  built from a URL, what the JSON decoder makes of a body (the new value of the pointer
  it was given and its error), the random suffix of the temporary file, the directory
  and error of the bundle allocation, and the packer selection.
\<close>

record env =
  httpDo :: "string \<Rightarrow> string + response"
  httpGet :: "string \<Rightarrow> string + response"
  newRequestErr :: "string \<Rightarrow> string option"
  Unmarshal :: "string \<Rightarrow> shubAPIResponse option \<Rightarrow> shubAPIResponse option \<times> string option"
  tempSuffix :: string
  bundlePath :: string
  bundleErr :: "string option"
  selectPacker :: "string \<Rightarrow> Bundle option \<Rightarrow> localPacker \<times> string option"

definition is_under :: "string \<Rightarrow> string \<Rightarrow> bool" where
  "is_under p q = (q = p \<or> take (length p + 1) q = p @ ''/'')"

text \<open>\<^verbatim>\<open>os.RemoveAll\<close>: removes the path and everything below it; a missing path is no error.\<close>

definition RemoveAll :: "string \<Rightarrow> filesystem \<Rightarrow> filesystem \<times> error option" where
  "RemoveAll p fs = (filter (\<lambda>(q, n). \<not> is_under p q) fs, None)"

text \<open>
  \<^verbatim>\<open>ioutil.TempFile(dir, prefix)\<close>: a new empty file in an existing directory, under a
  name that was free; otherwise the error, and a nil file.
\<close>

definition TempFile :: "string \<Rightarrow> filesystem \<Rightarrow> string \<Rightarrow> string \<Rightarrow> error + string \<times> filesystem" where
  "TempFile suffix fs dir pfx =
     (let name = dir @ ''/'' @ pfx @ suffix in
      if map_of fs dir = Some Dir \<and> map_of fs name = None
      then Inr (name, (name, File []) # fs)
      else Inl (FileError name))"

text \<open>
  \<^verbatim>\<open>io.Copy(tmpfile, resp.Body)\<close>: the bytes the body delivers go to the file; the result
  is their number and the error the body ended with, if any.
\<close>

definition Copy :: "string \<Rightarrow> response \<Rightarrow> filesystem \<Rightarrow> int \<times> error option \<times> filesystem" where
  "Copy name resp fs =
     (int (length (Body resp)), map_option ReadError (BodyErr resp),
      (name, File (Body resp)) # filter (\<lambda>(q, n). q \<noteq> name) fs)"

text \<open>
  Modelled from the spec: \<^verbatim>\<open>sytypes.NewBundle\<close> is the workspace provider, which
  allocates a fresh writable directory; on an error no bundle is returned.
\<close>

definition NewBundle :: "env \<Rightarrow> world \<Rightarrow> Bundle option \<times> error option \<times> world" where
  "NewBundle e w =
     (case bundleErr e of
        Some msg \<Rightarrow> (None, Some (BundleError msg), w)
      | None \<Rightarrow>
          if map_of (files w) (bundlePath e) = None
          then (Some \<lparr>Path = bundlePath e\<rparr>, None, w\<lparr>files := (bundlePath e, Dir) # files w\<rparr>)
          else (None, Some (BundleError (bundlePath e)), w))"

text \<open>\<^verbatim>\<open>strings.SplitN(s, sep, 2)\<close>: at most two pieces, cut at the first separator.\<close>

definition SplitN2 :: "char \<Rightarrow> string \<Rightarrow> string list" where
  "SplitN2 sep s =
     (case dropWhile (\<lambda>c. c \<noteq> sep) s of
        [] \<Rightarrow> [s]
      | c # rest \<Rightarrow> [takeWhile (\<lambda>c. c \<noteq> sep) s, rest])"

text \<open>
  \<^verbatim>\<open>url.URL{Scheme, Host, Path}.String()\<close>; the escaping of the path is left out (it
  leaves the characters of a parsed reference as they are).
\<close>

definition URLString :: "string \<Rightarrow> string \<Rightarrow> string" where
  "URLString host path =
     ''https://'' @ host @ (if path \<noteq> [] \<and> hd path \<noteq> CHR ''/'' then ''/'' else []) @ path"

subsection \<open>getManifest\<close>

text \<open>
  A method returns \<open>Inl\<close> when it panics, and otherwise its error result (\<open>None\<close> for
  nil) with the packer and the world as it leaves them.
\<close>

type_synonym outcome = "error + error option \<times> ShubConveyorPacker \<times> world"

text \<open>
  Lines 170 to 181: read the body, decode it into \<^verbatim>\<open>cp.manifest\<close>, log the image
  (which reads through the pointer before the error is looked at), return the error.
\<close>

definition decodeManifest :: "env \<Rightarrow> response \<Rightarrow> ShubConveyorPacker \<Rightarrow> world \<Rightarrow> outcome" where
  "decodeManifest e res cp w =
     (case BodyErr res of
        Some msg \<Rightarrow> Inr (Some (ReadError msg), cp, w)
      | None \<Rightarrow>
          (let (m, err) = Unmarshal e (Body res) (manifest cp);
               cp' = cp\<lparr>manifest := m\<rparr>
           in case m of
                None \<Rightarrow> Inl (Panic ''cp.manifest.Image'')
              | Some _ \<Rightarrow> Inr (map_option DecodeError err, cp', w)))"

definition StatusOK :: int where
  "StatusOK = 200"

text \<open>
  Lines 141 to 148: the address \<^verbatim>\<open>www.\<close> and the URI, its host the text before the
  first slash, its path the text after it. Without a slash the second piece of
  \<^verbatim>\<open>strings.SplitN\<close> does not exist and the index panics.
\<close>

definition manifestURL :: "ShubURI \<Rightarrow> error + string" where
  "manifestURL uri =
     (let httpAddr = ''www.'' @ String uri;
          host = Split CHR ''/'' httpAddr ! 0;
          pieces = SplitN2 CHR ''/'' httpAddr
      in if length pieces < 2 then Inl (Panic ''strings.SplitN(httpAddr, sep, 2)[1]'')
         else Inr (URLString host (pieces ! 1)))"

definition getManifest :: "env \<Rightarrow> ShubConveyorPacker \<Rightarrow> world \<Rightarrow> outcome" where
  "getManifest e cp w =
     (if \<not> defaultReg (srcURI cp) then Inr (None, cp, w)
      else
        (case manifestURL (srcURI cp) of
           Inl p \<Rightarrow> Inl p
         | Inr url \<Rightarrow>
             (case newRequestErr e url of
                Some msg \<Rightarrow> Inr (Some (RequestError msg), cp, w)
              | None \<Rightarrow>
                  (let w' = w\<lparr>requests := requests w @ [url]\<rparr> in
                   case httpDo e url of
                     Inl msg \<Rightarrow> Inr (Some (NetError msg), cp, w')
                   | Inr res \<Rightarrow>
                       if StatusCode res \<noteq> StatusOK
                       then Inr (Some (StatusError (Status res)), cp, w')
                       else decodeManifest e res cp w'))))"

subsection \<open>fetchImage\<close>

definition fetchImage :: "env \<Rightarrow> ShubConveyorPacker \<Rightarrow> world \<Rightarrow> outcome" where
  "fetchImage e cp w =
     (case cp_b cp of
        None \<Rightarrow> Inl (Panic ''cp.b.Path'')
      | Some bd \<Rightarrow>
          (case TempFile (tempSuffix e) (files w) (Path bd) ''shub-container'' of
             Inl err \<Rightarrow> Inl (Panic ''tmpfile.Name()'')
           | Inr (name, fs1) \<Rightarrow>
               (case manifest cp of
                  None \<Rightarrow> Inl (Panic ''cp.manifest.Image'')
                | Some m \<Rightarrow>
                    (let w1 = w\<lparr>files := fs1, requests := requests w @ [Image m]\<rparr> in
                     case httpGet e (Image m) of
                       Inl msg \<Rightarrow> Inr (Some (NetError msg), cp, w1)
                     | Inr resp \<Rightarrow>
                         (let (bytesWritten, err, fs2) = Copy name resp fs1;
                              w2 = w1\<lparr>files := fs2\<rparr>
                          in case err of
                               Some err' \<Rightarrow> Inr (Some err', cp, w2)
                             | None \<Rightarrow>
                                 if bytesWritten \<noteq> ContentLength resp
                                 then Inr (Some (SizeMismatch (ContentLength resp) bytesWritten), cp, w2)
                                 else Inr (None, cp\<lparr>tmpfile := name\<rparr>, w2))))))"

subsection \<open>Get and CleanUp\<close>

text \<open>
  The logger is a message sink (the calls to \<^verbatim>\<open>sylog\<close> leave no trace here), so after
  a failed stage \<^verbatim>\<open>Get\<close> reaches its \<^verbatim>\<open>return\<close>. On a parse error the parser hands back
  the zero URI next to the error.
\<close>

definition Get :: "env \<Rightarrow> Definition \<Rightarrow> ShubConveyorPacker \<Rightarrow> world \<Rightarrow> outcome" where
  "Get e rcp cp0 w =
     (let cp = cp0\<lparr>recipe := rcp\<rparr>;
          src = ''//'' @ header_get rcp ''from''
      in case ShubParseReference src of
           Inl (Panic msg) \<Rightarrow> Inl (Panic msg)
         | Inl err \<Rightarrow> Inr (Some err, cp\<lparr>srcURI := zeroURI\<rparr>, w)
         | Inr uri \<Rightarrow>
             (let cp1 = cp\<lparr>srcURI := uri\<rparr>;
                  (bd, err, w1) = NewBundle e w;
                  cp2 = cp1\<lparr>cp_b := bd\<rparr>
              in case err of
                   Some err' \<Rightarrow> Inr (Some err', cp2, w1)
                 | None \<Rightarrow>
                     (case getManifest e cp2 w1 of
                        Inl p \<Rightarrow> Inl p
                      | Inr (Some err', cp3, w2) \<Rightarrow> Inr (Some err', cp3, w2)
                      | Inr (None, cp3, w2) \<Rightarrow>
                          (case fetchImage e cp3 w2 of
                             Inl p \<Rightarrow> Inl p
                           | Inr (Some err', cp4, w3) \<Rightarrow> Inr (Some err', cp4, w3)
                           | Inr (None, cp4, w3) \<Rightarrow>
                               (let (lp, perr) = selectPacker e (tmpfile cp4) (cp_b cp4)
                                in Inr (map_option PackerError perr,
                                        cp4\<lparr>localPacker := lp\<rparr>, w3))))))"

text \<open>\<^verbatim>\<open>CleanUp\<close> has no result; the error of \<^verbatim>\<open>os.RemoveAll\<close> is dropped.\<close>

definition CleanUp :: "ShubConveyorPacker \<Rightarrow> world \<Rightarrow> error + world" where
  "CleanUp cp w =
     (case cp_b cp of
        None \<Rightarrow> Inl (Panic ''cp.b.Path'')
      | Some bd \<Rightarrow> Inr (w\<lparr>files := fst (RemoveAll (Path bd) (files w))\<rparr>))"

section \<open>Well-formed responses and a mock environment\<close>

text \<open>
  \<^verbatim>\<open>net/http\<close> reads the status line of a response into \<^verbatim>\<open>Status\<close> (such as
  \<^verbatim>\<open>404 Not Found\<close>) and its first three characters, as a number, into \<^verbatim>\<open>StatusCode\<close>.
\<close>

definition digit_char :: "int \<Rightarrow> char" where
  "digit_char d = char_of (48 + d)"

definition decimal3 :: "int \<Rightarrow> string" where
  "decimal3 n = [digit_char (n div 100 mod 10), digit_char (n div 10 mod 10), digit_char (n mod 10)]"

definition status_line_ok :: "response \<Rightarrow> bool" where
  "status_line_ok res = (take 3 (Status res) = decimal3 (StatusCode res))"

text \<open>
  A mock of the outside, as a test would set it up: a registry that answers every
  manifest request with one response and every image request with another, a decoder
  that takes the body for the image URL, and collaborators that do not fail.
\<close>

definition mockEnv :: "response \<Rightarrow> response \<Rightarrow> env" where
  "mockEnv manifestResp imageResp =
     \<lparr>httpDo = (\<lambda>url. Inr manifestResp),
      httpGet = (\<lambda>url. Inr imageResp),
      newRequestErr = (\<lambda>url. None),
      Unmarshal = (\<lambda>body old. (Some \<lparr>Image = body, Name = [], Tag = [], Version = []\<rparr>, None)),
      tempSuffix = ''001'',
      bundlePath = ''/tmp/sbuild-shub-1'',
      bundleErr = None,
      selectPacker = (\<lambda>path bd. (LocalPacker 0, None))\<rparr>"

definition mockResponse :: "int \<Rightarrow> string \<Rightarrow> int \<Rightarrow> string \<Rightarrow> response" where
  "mockResponse code text len body =
     \<lparr>StatusCode = code, Status = text, ContentLength = len, Body = body, BodyErr = None\<rparr>"

definition emptyWorld :: world where
  "emptyWorld = \<lparr>files = [], requests = []\<rparr>"

text \<open>What \<^verbatim>\<open>//owner/container\<close> parses to, and a packer that holds it.\<close>

definition exampleURI :: ShubURI where
  "exampleURI = \<lparr>registry = defaultRegistry, user = ''owner/'', container = ''container'',
                  tag = [], digest = [], defaultReg = True\<rparr>"

definition examplePacker :: ShubConveyorPacker where
  "examplePacker = zeroPacker\<lparr>srcURI := exampleURI\<rparr>"

definition exampleURL :: string where
  "exampleURL = ''https://www.singularity-hub.org/api/container/owner/container''"

section \<open>Properties of the matcher and of the string functions\<close>

lemma rmatch_Lit_iff: "r \<in> set (rmatch (Lit c) s) \<longleftrightarrow> s = c # r"
  by (auto split: list.splits)

lemma rmatch_Cls_iff: "r \<in> set (rmatch (Cls its) s) \<longleftrightarrow> (\<exists>c. s = c # r \<and> in_class its c)"
  by (auto split: list.splits)

lemma rmatch_Seq_iff:
  "r \<in> set (rmatch (Seq a b) s) \<longleftrightarrow> (\<exists>t. t \<in> set (rmatch a s) \<and> r \<in> set (rmatch b t))"
  by auto

lemma rmatch_Opt_iff: "r \<in> set (rmatch (Opt a) s) \<longleftrightarrow> r \<in> set (rmatch a s) \<or> r = s"
  by auto

lemma iter_Cls_iff:
  "r \<in> set (iter (rmatch (Cls its)) m n s) \<longleftrightarrow>
     (\<exists>w. s = w @ r \<and> m \<le> length w \<and> length w \<le> n \<and> all_in its w)"
proof (induction n arbitrary: m s)
  case 0
  then show ?case by (auto simp: all_in_def)
next
  case (Suc n)
  show ?case
  proof
    assume "r \<in> set (iter (rmatch (Cls its)) m (Suc n) s)"
    then consider (step) t where "t \<in> set (rmatch (Cls its) s)" "r \<in> set (iter (rmatch (Cls its)) (m - 1) n t)"
      | (stop) "m = 0" "r = s"
      by (auto split: if_splits)
    then show "\<exists>w. s = w @ r \<and> m \<le> length w \<and> length w \<le> Suc n \<and> all_in its w"
    proof cases
      case step
      from step(1) obtain c where c: "s = c # t" "in_class its c"
        by (auto simp: rmatch_Cls_iff)
      from step(2) Suc.IH obtain w where w: "t = w @ r" "m - 1 \<le> length w" "length w \<le> n" "all_in its w"
        by blast
      have "s = (c # w) @ r \<and> m \<le> length (c # w) \<and> length (c # w) \<le> Suc n \<and> all_in its (c # w)"
        using c w by (auto simp: all_in_def)
      then show ?thesis by blast
    next
      case stop
      then have "s = [] @ r \<and> m \<le> length ([]::string) \<and> length ([]::string) \<le> Suc n \<and> all_in its []"
        by (simp add: all_in_def)
      then show ?thesis by blast
    qed
  next
    assume "\<exists>w. s = w @ r \<and> m \<le> length w \<and> length w \<le> Suc n \<and> all_in its w"
    then obtain w where w: "s = w @ r" "m \<le> length w" "length w \<le> Suc n" "all_in its w"
      by blast
    show "r \<in> set (iter (rmatch (Cls its)) m (Suc n) s)"
    proof (cases w)
      case Nil
      with w show ?thesis by simp
    next
      case (Cons c w')
      with w have t: "w' @ r \<in> set (rmatch (Cls its) s)"
        by (simp add: all_in_def)
      have "r \<in> set (iter (rmatch (Cls its)) (m - 1) n (w' @ r))"
        using Suc.IH [of "m - 1" "w' @ r"] w Cons by (auto simp: all_in_def)
      with t show ?thesis by auto
    qed
  qed
qed

lemma rmatch_Rep_Cls_iff:
  "r \<in> set (rmatch (Rep m n (Cls its)) s) \<longleftrightarrow>
     (\<exists>w. s = w @ r \<and> m \<le> length w \<and> length w \<le> n \<and> all_in its w)"
  unfolding rmatch.simps(5) by (rule iter_Cls_iff)

declare rmatch.simps [simp del] iter.simps [simp del]

lemma not_slash_name: "in_class nameChars c \<Longrightarrow> c \<noteq> CHR ''/''"
  by (auto simp: in_class_def nameChars_def)

lemma not_delim_container:
  "in_class containerChars c \<Longrightarrow> c \<noteq> CHR ''/'' \<and> c \<noteq> CHR '':'' \<and> c \<noteq> CHR ''@''"
  by (auto simp: in_class_def containerChars_def)

lemma not_delim_tag:
  "in_class tagChars c \<Longrightarrow> c \<noteq> CHR ''/'' \<and> c \<noteq> CHR '':'' \<and> c \<noteq> CHR ''@''"
  by (auto simp: in_class_def tagChars_def)

lemma not_delim_digest:
  "in_class digestChars c \<Longrightarrow> c \<noteq> CHR ''/'' \<and> c \<noteq> CHR '':'' \<and> c \<noteq> CHR ''@''"
  by (auto simp: in_class_def digestChars_def)

lemma not_delim_registry:
  "in_class registryChars c \<Longrightarrow> c \<noteq> CHR '':'' \<and> c \<noteq> CHR ''@''"
  by (auto simp: in_class_def registryChars_def)

lemma SplitAfter_none: "sep \<notin> set r \<Longrightarrow> SplitAfter sep r = [r]"
proof -
  assume "sep \<notin> set r"
  then have d: "dropWhile (\<lambda>c. c \<noteq> sep) r = []" by auto
  show ?thesis by (subst SplitAfter.simps) (simp only: d list.case)
qed

lemma SplitAfter_first:
  "sep \<notin> set u \<Longrightarrow> SplitAfter sep (u @ sep # s) = (u @ [sep]) # SplitAfter sep s"
proof -
  assume u: "sep \<notin> set u"
  then have d: "dropWhile (\<lambda>c. c \<noteq> sep) (u @ sep # s) = sep # s"
    by (induction u) auto
  from u have t: "takeWhile (\<lambda>c. c \<noteq> sep) (u @ sep # s) = u"
    by (induction u) auto
  show ?thesis by (subst SplitAfter.simps) (simp only: d t list.case)
qed

lemma Split_none: "sep \<notin> set r \<Longrightarrow> Split sep r = [r]"
proof -
  assume "sep \<notin> set r"
  then have d: "dropWhile (\<lambda>c. c \<noteq> sep) r = []" by auto
  show ?thesis by (subst Split.simps) (simp only: d list.case)
qed

lemma Split_first:
  "sep \<notin> set u \<Longrightarrow> Split sep (u @ sep # s) = u # Split sep s"
proof -
  assume u: "sep \<notin> set u"
  then have d: "dropWhile (\<lambda>c. c \<noteq> sep) (u @ sep # s) = sep # s"
    by (induction u) auto
  from u have t: "takeWhile (\<lambda>c. c \<noteq> sep) (u @ sep # s) = u"
    by (induction u) auto
  show ?thesis by (subst Split.simps) (simp only: d t list.case)
qed

lemma Split_length: "Contains s sep \<Longrightarrow> 2 \<le> length (Split sep s)"
proof -
  assume "Contains s sep"
  then obtain u v where "s = u @ sep # v" "sep \<notin> set u"
    unfolding Contains_def by (meson split_list_first)
  then have "Split sep s = u # Split sep v" by (simp add: Split_first)
  moreover have "Split sep v \<noteq> []"
    by (subst Split.simps) (simp split: list.splits)
  ultimately show ?thesis by (cases "Split sep v") auto
qed

lemma SplitAfter_concat: "concat (SplitAfter sep s) = s"
proof (induction sep s rule: SplitAfter.induct)
  case (1 sep s)
  show ?case
  proof (cases "dropWhile (\<lambda>c. c \<noteq> sep) s")
    case Nil
    show ?thesis by (subst SplitAfter.simps) (simp only: Nil list.case concat.simps append_Nil2)
  next
    case (Cons c rest)
    then have c: "c = sep" using hd_dropWhile [of "\<lambda>c. c \<noteq> sep" s] by auto
    have "s = takeWhile (\<lambda>c. c \<noteq> sep) s @ dropWhile (\<lambda>c. c \<noteq> sep) s" by simp
    then have "s = takeWhile (\<lambda>c. c \<noteq> sep) s @ c # rest" using Cons by simp
    moreover have "concat (SplitAfter sep rest) = rest" using 1 Cons by simp
    ultimately have "concat ((takeWhile (\<lambda>c. c \<noteq> sep) s @ [c]) # SplitAfter sep rest) = s"
      by simp
    then show ?thesis by (subst SplitAfter.simps) (simp only: Cons list.case)
  qed
qed

text \<open>A prefix that ends with the separator is cut into pieces of its own.\<close>

lemma SplitAfter_prefix:
  "\<exists>P. P \<noteq> [] \<and> concat P = w @ [sep] \<and> (\<forall>s. SplitAfter sep (w @ sep # s) = P @ SplitAfter sep s)"
proof (induction w rule: length_induct)
  case (1 w)
  show ?case
  proof (cases "sep \<in> set w")
    case False
    then have "\<forall>s. SplitAfter sep (w @ sep # s) = [w @ [sep]] @ SplitAfter sep s"
      by (simp add: SplitAfter_first)
    then show ?thesis by (intro exI [of _ "[w @ [sep]]"]) simp
  next
    case True
    then obtain u v where uv: "w = u @ sep # v" "sep \<notin> set u"
      by (meson split_list_first)
    then have "length v < length w" by simp
    with 1 obtain P where P: "P \<noteq> []" "concat P = v @ [sep]"
        "\<forall>s. SplitAfter sep (v @ sep # s) = P @ SplitAfter sep s"
      by blast
    have "\<forall>s. SplitAfter sep (w @ sep # s) = ((u @ [sep]) # P) @ SplitAfter sep s"
      using uv P(3) by (simp add: SplitAfter_first)
    moreover have "concat ((u @ [sep]) # P) = w @ [sep]" using uv P(2) by simp
    ultimately show ?thesis by (intro exI [of _ "(u @ [sep]) # P"]) simp
  qed
qed

section \<open>The anchored expression and the grammar on parts\<close>

lemma rmatch_registry_iff:
  "r \<in> set (rmatch registryRegexp s) \<longleftrightarrow> (\<exists>R. s = R @ r \<and> registry_part R)"
proof
  assume "r \<in> set (rmatch registryRegexp s)"
  then consider (some) w where "s = w @ CHR ''/'' # r" "1 \<le> length w" "length w \<le> 64" "all_in registryChars w"
    | (none) "r = s"
    unfolding registryRegexp_def rmatch_Opt_iff rmatch_Seq_iff rmatch_Rep_Cls_iff rmatch_Lit_iff
    by auto
  then show "\<exists>R. s = R @ r \<and> registry_part R"
  proof cases
    case some
    then have "s = (w @ ''/'') @ r \<and> registry_part (w @ ''/'')"
      by (simp add: registry_part_def)
    then show ?thesis by blast
  next
    case none
    then have "s = [] @ r \<and> registry_part []" by (simp add: registry_part_def)
    then show ?thesis by blast
  qed
next
  assume "\<exists>R. s = R @ r \<and> registry_part R"
  then obtain R where R: "s = R @ r" "registry_part R" by blast
  show "r \<in> set (rmatch registryRegexp s)"
  proof (cases "R = []")
    case True
    with R show ?thesis
      unfolding registryRegexp_def rmatch_Opt_iff by simp
  next
    case False
    with R(2) have p: "last R = CHR ''/''" "1 \<le> length (butlast R)" "length (butlast R) \<le> 64"
        "all_in registryChars (butlast R)"
      by (auto simp: registry_part_def)
    from False p(1) have "R = butlast R @ ''/''"
      by (metis append_butlast_last_id)
    with R(1) have "s = butlast R @ CHR ''/'' # r" by (metis append.assoc append_Cons append_Nil)
    with p show ?thesis
      unfolding registryRegexp_def rmatch_Opt_iff rmatch_Seq_iff rmatch_Rep_Cls_iff rmatch_Lit_iff
      by blast
  qed
qed

lemma rmatch_name_iff:
  "r \<in> set (rmatch nameRegexp s) \<longleftrightarrow> (\<exists>U. s = U @ r \<and> name_part U)"
proof
  assume "r \<in> set (rmatch nameRegexp s)"
  then obtain w where w: "s = w @ CHR ''/'' # r" "1 \<le> length w" "length w \<le> 39" "all_in nameChars w"
    unfolding nameRegexp_def rmatch_Seq_iff rmatch_Rep_Cls_iff rmatch_Lit_iff
    by auto
  then have "s = (w @ ''/'') @ r \<and> name_part (w @ ''/'')"
    by (simp add: name_part_def)
  then show "\<exists>U. s = U @ r \<and> name_part U" by blast
next
  assume "\<exists>U. s = U @ r \<and> name_part U"
  then obtain U where U: "s = U @ r" "name_part U" by blast
  then have p: "U \<noteq> []" "last U = CHR ''/''" "1 \<le> length (butlast U)" "length (butlast U) \<le> 39"
      "all_in nameChars (butlast U)"
    by (auto simp: name_part_def)
  then have "U = butlast U @ ''/''"
    by (metis append_butlast_last_id)
  with U(1) have "s = butlast U @ CHR ''/'' # r" by (metis append.assoc append_Cons append_Nil)
  with p show "r \<in> set (rmatch nameRegexp s)"
    unfolding nameRegexp_def rmatch_Seq_iff rmatch_Rep_Cls_iff rmatch_Lit_iff
    by blast
qed

lemma rmatch_container_iff:
  "r \<in> set (rmatch containerRegexp s) \<longleftrightarrow> (\<exists>C. s = C @ r \<and> container_part C)"
  unfolding containerRegexp_def rmatch_Rep_Cls_iff container_part_def by blast

lemma rmatch_tag_iff:
  "r \<in> set (rmatch tagRegexp s) \<longleftrightarrow> (\<exists>T. s = T @ r \<and> tag_part T)"
proof
  assume "r \<in> set (rmatch tagRegexp s)"
  then consider (some) w where "s = CHR '':'' # w @ r" "1 \<le> length w" "length w \<le> 64" "all_in tagChars w"
    | (none) "r = s"
    unfolding tagRegexp_def rmatch_Opt_iff rmatch_Seq_iff rmatch_Rep_Cls_iff rmatch_Lit_iff
    by auto
  then show "\<exists>T. s = T @ r \<and> tag_part T"
  proof cases
    case some
    then have "s = (CHR '':'' # w) @ r \<and> tag_part (CHR '':'' # w)"
      by (simp add: tag_part_def)
    then show ?thesis by blast
  next
    case none
    then have "s = [] @ r \<and> tag_part []" by (simp add: tag_part_def)
    then show ?thesis by blast
  qed
next
  assume "\<exists>T. s = T @ r \<and> tag_part T"
  then obtain T where T: "s = T @ r" "tag_part T" by blast
  show "r \<in> set (rmatch tagRegexp s)"
  proof (cases T)
    case Nil
    with T show ?thesis unfolding tagRegexp_def rmatch_Opt_iff by simp
  next
    case (Cons c w)
    with T(2) have p: "c = CHR '':''" "1 \<le> length w" "length w \<le> 64" "all_in tagChars w"
      by (auto simp: tag_part_def)
    with T(1) Cons have "s = CHR '':'' # w @ r" by simp
    with p show ?thesis
      unfolding tagRegexp_def rmatch_Opt_iff rmatch_Seq_iff rmatch_Rep_Cls_iff rmatch_Lit_iff
      by blast
  qed
qed

lemma rmatch_digest_iff:
  "r \<in> set (rmatch digestRegexp s) \<longleftrightarrow> (\<exists>D. s = D @ r \<and> digest_part D)"
proof
  assume "r \<in> set (rmatch digestRegexp s)"
  then consider (some) w where "s = CHR ''@'' # w @ r" "32 \<le> length w" "length w \<le> 32" "all_in digestChars w"
    | (none) "r = s"
    unfolding digestRegexp_def rmatch_Opt_iff rmatch_Seq_iff rmatch_Rep_Cls_iff rmatch_Lit_iff
    by auto
  then show "\<exists>D. s = D @ r \<and> digest_part D"
  proof cases
    case some
    then have "s = (CHR ''@'' # w) @ r \<and> digest_part (CHR ''@'' # w)"
      by (simp add: digest_part_def)
    then show ?thesis by blast
  next
    case none
    then have "s = [] @ r \<and> digest_part []" by (simp add: digest_part_def)
    then show ?thesis by blast
  qed
next
  assume "\<exists>D. s = D @ r \<and> digest_part D"
  then obtain D where D: "s = D @ r" "digest_part D" by blast
  show "r \<in> set (rmatch digestRegexp s)"
  proof (cases D)
    case Nil
    with D show ?thesis unfolding digestRegexp_def rmatch_Opt_iff by simp
  next
    case (Cons c w)
    with D(2) have p: "c = CHR ''@''" "32 \<le> length w" "length w \<le> 32" "all_in digestChars w"
      by (auto simp: digest_part_def)
    with D(1) Cons have "s = CHR ''@'' # w @ r" by simp
    with p show ?thesis
      unfolding digestRegexp_def rmatch_Opt_iff rmatch_Seq_iff rmatch_Rep_Cls_iff rmatch_Lit_iff
      by blast
  qed
qed

lemma regex_iff_grammar: "full_match shubRegex src \<longleftrightarrow> shub_grammar src"
proof
  assume "full_match shubRegex src"
  then have "[] \<in> set (rmatch shubRegex src)" by (simp add: full_match_def)
  then obtain s1 where s1: "s1 \<in> set (rmatch (Lit CHR ''/'') src)"
      "[] \<in> set (rmatch (Seq (Lit CHR ''/'') (Seq registryRegexp (Seq nameRegexp
              (Seq containerRegexp (Seq tagRegexp digestRegexp))))) s1)"
    unfolding shubRegex_def by (subst (asm) rmatch_Seq_iff) blast
  from s1(2) obtain s2 where s2: "s2 \<in> set (rmatch (Lit CHR ''/'') s1)"
      "[] \<in> set (rmatch (Seq registryRegexp (Seq nameRegexp
              (Seq containerRegexp (Seq tagRegexp digestRegexp)))) s2)"
    by (subst (asm) rmatch_Seq_iff) blast
  from s2(2) obtain s3 where s3: "s3 \<in> set (rmatch registryRegexp s2)"
      "[] \<in> set (rmatch (Seq nameRegexp (Seq containerRegexp (Seq tagRegexp digestRegexp))) s3)"
    by (subst (asm) rmatch_Seq_iff) blast
  from s3(2) obtain s4 where s4: "s4 \<in> set (rmatch nameRegexp s3)"
      "[] \<in> set (rmatch (Seq containerRegexp (Seq tagRegexp digestRegexp)) s4)"
    by (subst (asm) rmatch_Seq_iff) blast
  from s4(2) obtain s5 where s5: "s5 \<in> set (rmatch containerRegexp s4)"
      "[] \<in> set (rmatch (Seq tagRegexp digestRegexp) s5)"
    by (subst (asm) rmatch_Seq_iff) blast
  from s5(2) obtain s6 where s6: "s6 \<in> set (rmatch tagRegexp s5)"
      "[] \<in> set (rmatch digestRegexp s6)"
    by (subst (asm) rmatch_Seq_iff) blast
  from s1(1) have e1: "src = CHR ''/'' # s1" by (simp only: rmatch_Lit_iff)
  from s2(1) have e2: "s1 = CHR ''/'' # s2" by (simp only: rmatch_Lit_iff)
  from s3(1) obtain R where R: "s2 = R @ s3" "registry_part R"
    unfolding rmatch_registry_iff by blast
  from s4(1) obtain U where U: "s3 = U @ s4" "name_part U"
    unfolding rmatch_name_iff by blast
  from s5(1) obtain C where C: "s4 = C @ s5" "container_part C"
    unfolding rmatch_container_iff by blast
  from s6(1) obtain T where T: "s5 = T @ s6" "tag_part T"
    unfolding rmatch_tag_iff by blast
  from s6(2) obtain D where D: "s6 = D @ []" "digest_part D"
    unfolding rmatch_digest_iff by blast
  have "src = ''//'' @ R @ U @ C @ T @ D"
    by (simp add: e1 e2 R(1) U(1) C(1) T(1) D(1))
  with R(2) U(2) C(2) T(2) D(2) show "shub_grammar src"
    unfolding shub_grammar_def by blast
next
  assume "shub_grammar src"
  then obtain R U C T D where p: "src = ''//'' @ R @ U @ C @ T @ D"
      "registry_part R" "name_part U" "container_part C" "tag_part T" "digest_part D"
    unfolding shub_grammar_def by blast
  have 1: "[] \<in> set (rmatch digestRegexp D)"
    unfolding rmatch_digest_iff using p(6) by (intro exI [of _ D]) simp
  have 2: "D \<in> set (rmatch tagRegexp (T @ D))"
    unfolding rmatch_tag_iff using p(5) by (intro exI [of _ T]) simp
  have 3: "T @ D \<in> set (rmatch containerRegexp (C @ T @ D))"
    unfolding rmatch_container_iff using p(4) by (intro exI [of _ C]) simp
  have 4: "C @ T @ D \<in> set (rmatch nameRegexp (U @ C @ T @ D))"
    unfolding rmatch_name_iff using p(3) by (intro exI [of _ U]) simp
  have 5: "U @ C @ T @ D \<in> set (rmatch registryRegexp (R @ U @ C @ T @ D))"
    unfolding rmatch_registry_iff using p(2) by (intro exI [of _ R]) simp
  have 6: "CHR ''/'' # R @ U @ C @ T @ D \<in> set (rmatch (Lit CHR ''/'') src)"
    unfolding rmatch_Lit_iff using p(1) by simp
  have 7: "R @ U @ C @ T @ D \<in> set (rmatch (Lit CHR ''/'') (CHR ''/'' # R @ U @ C @ T @ D))"
    unfolding rmatch_Lit_iff by simp
  have a: "[] \<in> set (rmatch (Seq tagRegexp digestRegexp) (T @ D))"
    using 1 2 by (subst rmatch_Seq_iff) blast
  have b: "[] \<in> set (rmatch (Seq containerRegexp (Seq tagRegexp digestRegexp)) (C @ T @ D))"
    using a 3 by (subst rmatch_Seq_iff) blast
  have c: "[] \<in> set (rmatch (Seq nameRegexp (Seq containerRegexp (Seq tagRegexp digestRegexp)))
                  (U @ C @ T @ D))"
    using b 4 by (subst rmatch_Seq_iff) blast
  have d: "[] \<in> set (rmatch (Seq registryRegexp (Seq nameRegexp (Seq containerRegexp
                  (Seq tagRegexp digestRegexp)))) (R @ U @ C @ T @ D))"
    using c 5 by (subst rmatch_Seq_iff) blast
  have e: "[] \<in> set (rmatch (Seq (Lit CHR ''/'') (Seq registryRegexp (Seq nameRegexp (Seq containerRegexp
                  (Seq tagRegexp digestRegexp))))) (CHR ''/'' # R @ U @ C @ T @ D))"
    using d 7 by (subst rmatch_Seq_iff) blast
  have "[] \<in> set (rmatch shubRegex src)"
    unfolding shubRegex_def using e 6 by (subst rmatch_Seq_iff) blast
  then show "full_match shubRegex src" by (simp add: full_match_def)
qed

section \<open>What the three splits of the parser do on a reference that matches\<close>

lemma all_in_iff: "all_in its w \<longleftrightarrow> (\<forall>c\<in>set w. in_class its c)"
  by (simp add: all_in_def list_all_iff)

lemma name_part_shape:
  assumes "name_part U"
  shows "\<exists>u. U = u @ ''/'' \<and> CHR ''/'' \<notin> set u"
proof -
  from assms have p: "U \<noteq> []" "last U = CHR ''/''" "all_in nameChars (butlast U)"
    by (auto simp: name_part_def)
  then have "U = butlast U @ ''/''" by (metis append_butlast_last_id)
  moreover have "CHR ''/'' \<notin> set (butlast U)"
    using p(3) not_slash_name by (auto simp: all_in_iff)
  ultimately show ?thesis by blast
qed

lemma container_part_shape:
  assumes "container_part C"
  shows "C \<noteq> [] \<and> CHR ''/'' \<notin> set C \<and> CHR '':'' \<notin> set C \<and> CHR ''@'' \<notin> set C"
proof -
  from assms have "1 \<le> length C" and a: "\<forall>c\<in>set C. in_class containerChars c"
    by (auto simp: container_part_def all_in_iff)
  then have "C \<noteq> []" by auto
  moreover from a not_delim_container have "CHR ''/'' \<notin> set C" "CHR '':'' \<notin> set C" "CHR ''@'' \<notin> set C"
    by blast+
  ultimately show ?thesis by simp
qed

lemma tag_part_shape:
  assumes "tag_part T"
  shows "CHR ''/'' \<notin> set T \<and> CHR ''@'' \<notin> set T \<and>
         (T = [] \<or> (\<exists>t. T = CHR '':'' # t \<and> CHR '':'' \<notin> set t))"
proof (cases T)
  case Nil
  then show ?thesis by simp
next
  case (Cons c t)
  with assms have c: "c = CHR '':''" and a: "\<forall>x\<in>set t. in_class tagChars x"
    by (auto simp: tag_part_def all_in_iff)
  from a not_delim_tag have "CHR ''/'' \<notin> set t" "CHR '':'' \<notin> set t" "CHR ''@'' \<notin> set t"
    by blast+
  with c Cons show ?thesis by simp
qed

lemma digest_part_shape:
  assumes "digest_part D"
  shows "CHR ''/'' \<notin> set D \<and> CHR '':'' \<notin> set D \<and>
         (D = [] \<or> (\<exists>d. D = CHR ''@'' # d \<and> CHR ''@'' \<notin> set d))"
proof (cases D)
  case Nil
  then show ?thesis by simp
next
  case (Cons c d)
  with assms have c: "c = CHR ''@''" and a: "\<forall>x\<in>set d. in_class digestChars x"
    by (auto simp: digest_part_def all_in_iff)
  from a not_delim_digest have "CHR ''/'' \<notin> set d" "CHR '':'' \<notin> set d" "CHR ''@'' \<notin> set d"
    by blast+
  with c Cons show ?thesis by simp
qed

lemma registry_part_shape:
  assumes "registry_part R"
  shows "CHR '':'' \<notin> set R \<and> CHR ''@'' \<notin> set R \<and> (R = [] \<or> (\<exists>w. R = w @ ''/''))"
proof (cases "R = []")
  case True
  then show ?thesis by simp
next
  case False
  with assms have l: "last R = CHR ''/''" and a: "\<forall>x\<in>set (butlast R). in_class registryChars x"
    by (auto simp: registry_part_def all_in_iff)
  from False l have R: "R = butlast R @ ''/''" by (metis append_butlast_last_id)
  from a not_delim_registry have "CHR '':'' \<notin> set (butlast R)" "CHR ''@'' \<notin> set (butlast R)"
    by blast+
  then have "CHR '':'' \<notin> set (butlast R @ ''/'')" "CHR ''@'' \<notin> set (butlast R @ ''/'')"
    by simp_all
  with R show ?thesis by metis
qed

lemma split_registry_default:
  assumes "CHR ''/'' \<notin> set u" "CHR ''/'' \<notin> set rest"
  shows "split_registry (u @ ''/'' @ rest) uri =
           (uri\<lparr>defaultReg := True, registry := defaultRegistry, user := u @ ''/''\<rparr>, rest)"
proof -
  have "SplitAfter CHR ''/'' (u @ ''/'' @ rest) = [u @ ''/'', rest]"
    using assms by (simp add: SplitAfter_first SplitAfter_none)
  then show ?thesis by (simp add: split_registry_def)
qed

lemma split_registry_custom:
  assumes "CHR ''/'' \<notin> set u" "CHR ''/'' \<notin> set rest"
  shows "split_registry ((w @ ''/'') @ u @ ''/'' @ rest) uri =
           (uri\<lparr>defaultReg := False, registry := w @ ''/'', user := u @ ''/''\<rparr>, rest)"
proof -
  obtain P where P: "P \<noteq> []" "concat P = w @ ''/''"
      "\<forall>s. SplitAfter CHR ''/'' (w @ CHR ''/'' # s) = P @ SplitAfter CHR ''/'' s"
    using SplitAfter_prefix [of w "CHR ''/''"] by blast
  have "SplitAfter CHR ''/'' (u @ ''/'' @ rest) = [u @ ''/'', rest]"
    using assms by (simp add: SplitAfter_first SplitAfter_none)
  with P(3) have sp: "SplitAfter CHR ''/'' ((w @ ''/'') @ u @ ''/'' @ rest) = P @ [u @ ''/'', rest]"
    by simp
  have l: "length (P @ [u @ ''/'', rest]) = length P + 2" by simp
  have "length P > 0" using P(1) by simp
  then have gt: "length P + 2 > 2" by simp
  have t: "take (length P + 2 - 2) (P @ [u @ ''/'', rest]) = P" by simp
  have n1: "(P @ [u @ ''/'', rest]) ! (length P + 2 - 2) = u @ ''/''" by simp
  have n2: "(P @ [u @ ''/'', rest]) ! (length P + 2 - 1) = rest"
    by (simp add: nth_append)
  show ?thesis
    unfolding split_registry_def sp Let_def l
    using gt by (simp only: t n1 n2 P(2) if_True)
qed

lemma split_digest_none:
  "CHR ''@'' \<notin> set X \<Longrightarrow> split_digest X uri = (uri, X)"
  by (simp add: split_digest_def Contains_def)

lemma split_digest_some:
  assumes "CHR ''@'' \<notin> set X" "CHR ''@'' \<notin> set d"
  shows "split_digest (X @ CHR ''@'' # d) uri = (uri\<lparr>digest := CHR ''@'' # d\<rparr>, X)"
proof -
  have "Split CHR ''@'' (X @ CHR ''@'' # d) = [X, d]"
    using assms by (simp add: Split_first Split_none)
  then show ?thesis by (simp add: split_digest_def Contains_def)
qed

lemma split_tag_none:
  "CHR '':'' \<notin> set X \<Longrightarrow> split_tag X uri = (uri, X)"
  by (simp add: split_tag_def Contains_def)

lemma split_tag_some:
  assumes "CHR '':'' \<notin> set X" "CHR '':'' \<notin> set t"
  shows "split_tag (X @ CHR '':'' # t) uri = (uri\<lparr>tag := CHR '':'' # t\<rparr>, X)"
proof -
  have "Split CHR '':'' (X @ CHR '':'' # t) = [X, t]"
    using assms by (simp add: Split_first Split_none)
  then show ?thesis by (simp add: split_tag_def Contains_def)
qed

lemma split_registry_parts:
  assumes "registry_part R" "CHR ''/'' \<notin> set u" "CHR ''/'' \<notin> set rest"
  shows "split_registry (R @ u @ ''/'' @ rest) uri =
           (uri\<lparr>defaultReg := (R = []), registry := (if R = [] then defaultRegistry else R),
                user := u @ ''/''\<rparr>, rest)"
proof (cases "R = []")
  case True
  then show ?thesis using split_registry_default [OF assms(2,3)] by simp
next
  case False
  with registry_part_shape [OF assms(1)] obtain w where "R = w @ ''/''" by blast
  with False show ?thesis using split_registry_custom [OF assms(2,3), of w uri] by simp
qed

lemma split_digest_parts:
  assumes "digest_part D" "CHR ''@'' \<notin> set X" "digest uri = []"
  shows "split_digest (X @ D) uri = (uri\<lparr>digest := D\<rparr>, X)"
proof (cases "D = []")
  case True
  then show ?thesis using assms(2,3) by (simp add: split_digest_none)
next
  case False
  with digest_part_shape [OF assms(1)] obtain d where "D = CHR ''@'' # d" "CHR ''@'' \<notin> set d"
    by blast
  then show ?thesis using split_digest_some [OF assms(2), of d uri] by simp
qed

lemma split_tag_parts:
  assumes "tag_part T" "CHR '':'' \<notin> set X" "tag uri = []"
  shows "split_tag (X @ T) uri = (uri\<lparr>tag := T\<rparr>, X)"
proof (cases "T = []")
  case True
  then show ?thesis using assms(2,3) by (simp add: split_tag_none)
next
  case False
  with tag_part_shape [OF assms(1)] obtain t where "T = CHR '':'' # t" "CHR '':'' \<notin> set t"
    by blast
  then show ?thesis using split_tag_some [OF assms(2), of t uri] by simp
qed

lemma parse_parts:
  assumes "registry_part R" "name_part U" "container_part C" "tag_part T" "digest_part D"
  shows "ShubParseReference (''//'' @ R @ U @ C @ T @ D) =
           Inr \<lparr>registry = (if R = [] then defaultRegistry else R), user = U, container = C,
                tag = T, digest = D, defaultReg = (R = [])\<rparr>"
proof -
  let ?src = "''//'' @ R @ U @ C @ T @ D"
  have "shub_grammar ?src" unfolding shub_grammar_def using assms by blast
  then have "full_match shubRegex ?src" by (simp only: regex_iff_grammar)
  then have found: "FindString shubRegex ?src = ?src" by (simp add: FindString_def)
  have len: "\<not> length ?src < 2" by simp
  have dr: "drop 2 ?src = R @ U @ C @ T @ D" by simp
  obtain u where u: "U = u @ ''/''" "CHR ''/'' \<notin> set u"
    using name_part_shape [OF assms(2)] by blast
  note c = container_part_shape [OF assms(3)]
  note t = tag_part_shape [OF assms(4)]
  note d = digest_part_shape [OF assms(5)]
  have rest: "CHR ''/'' \<notin> set (C @ T @ D)" using c t d by simp
  have sr: "split_registry (R @ U @ C @ T @ D) zeroURI =
      (zeroURI\<lparr>defaultReg := (R = []), registry := (if R = [] then defaultRegistry else R),
               user := U\<rparr>, C @ T @ D)"
    using split_registry_parts [OF assms(1) u(2) rest, of zeroURI] u(1) by simp
  have sd: "split_digest (C @ T @ D) uri = (uri\<lparr>digest := D\<rparr>, C @ T)" if "digest uri = []" for uri
    using split_digest_parts [OF assms(5), of "C @ T" uri] that c t by simp
  have st: "split_tag (C @ T) uri = (uri\<lparr>tag := T\<rparr>, C)" if "tag uri = []" for uri
    using split_tag_parts [OF assms(4), of C uri] that c by simp
  show ?thesis
    unfolding ShubParseReference_def Let_def found dr
    by (simp only: len sr refl if_False split_conv) (simp add: sd st zeroURI_def)
qed

section \<open>From a successful parse back to the parts\<close>

lemma parse_ok_match:
  assumes "ShubParseReference src = Inr uri"
  shows "full_match shubRegex src"
proof (rule ccontr)
  assume n: "\<not> full_match shubRegex src"
  then have f: "FindString shubRegex src = []" by (simp add: FindString_def)
  show False
  proof (cases "src = []")
    case True
    with assms f show False by (simp add: ShubParseReference_def)
  next
    case False
    with assms f show False by (simp add: ShubParseReference_def)
  qed
qed

lemma parse_no_match:
  assumes "\<not> full_match shubRegex src" "src \<noteq> []"
  shows "ShubParseReference src = Inl (InvalidURI src)"
proof -
  from assms(1) have "FindString shubRegex src = []" by (simp add: FindString_def)
  with assms(2) show ?thesis by (simp add: ShubParseReference_def)
qed

lemma parse_ok_parts:
  assumes "full_match shubRegex src"
  obtains R U C T D where "src = ''//'' @ R @ U @ C @ T @ D"
    "registry_part R" "name_part U" "container_part C" "tag_part T" "digest_part D"
    "ShubParseReference src =
       Inr \<lparr>registry = (if R = [] then defaultRegistry else R), user = U, container = C,
            tag = T, digest = D, defaultReg = (R = [])\<rparr>"
proof -
  from assms have "shub_grammar src" by (simp only: regex_iff_grammar)
  then obtain R U C T D where p: "src = ''//'' @ R @ U @ C @ T @ D"
      "registry_part R" "name_part U" "container_part C" "tag_part T" "digest_part D"
    unfolding shub_grammar_def by blast
  from parse_parts [OF p(2-6)] p that show thesis by blast
qed

lemma count_slash_parts:
  assumes "registry_part R" "name_part U" "container_part C" "tag_part T" "digest_part D"
  shows "count_list (R @ U @ C @ T @ D) CHR ''/'' \<le> 1 \<longleftrightarrow> R = []"
proof -
  obtain u where u: "U = u @ ''/''" "CHR ''/'' \<notin> set u"
    using name_part_shape [OF assms(2)] by blast
  have z: "count_list u CHR ''/'' = 0" "count_list C CHR ''/'' = 0"
      "count_list T CHR ''/'' = 0" "count_list D CHR ''/'' = 0"
    using u(2) container_part_shape [OF assms(3)] tag_part_shape [OF assms(4)]
      digest_part_shape [OF assms(5)] by (simp_all add: count_list_0_iff)
  then have total: "count_list (R @ U @ C @ T @ D) CHR ''/'' = count_list R CHR ''/'' + 1"
    by (simp add: u(1))
  show ?thesis
  proof (cases "R = []")
    case True
    with total show ?thesis by simp
  next
    case False
    with registry_part_shape [OF assms(1)] obtain w where "R = w @ ''/''" by blast
    then have "count_list R CHR ''/'' \<ge> 1" by simp
    with total False show ?thesis by simp
  qed
qed

lemma hex_in_class: "c \<in> set ''0123456789abcdef'' \<Longrightarrow> in_class digestChars c"
  by (auto simp: in_class_def digestChars_def)

lemma last_SplitAfter:
  assumes "CHR ''/'' \<notin> set rest"
  shows "last (SplitAfter CHR ''/'' (w @ ''/'' @ rest)) = rest"
proof -
  obtain P where "\<forall>s. SplitAfter CHR ''/'' (w @ CHR ''/'' # s) = P @ SplitAfter CHR ''/'' s"
    using SplitAfter_prefix [of w "CHR ''/''"] by blast
  then have "SplitAfter CHR ''/'' (w @ ''/'' @ rest) = P @ [rest]"
    using assms by (simp add: SplitAfter_none)
  then show ?thesis by simp
qed

lemma not_delim_name:
  "in_class nameChars c \<Longrightarrow> c \<noteq> CHR '':'' \<and> c \<noteq> CHR ''@''"
  by (auto simp: in_class_def nameChars_def)

lemma name_part_delims:
  assumes "name_part U"
  shows "CHR ''@'' \<notin> set U \<and> CHR '':'' \<notin> set U"
proof -
  from assms have p: "U \<noteq> []" "last U = CHR ''/''" and a: "\<forall>x\<in>set (butlast U). in_class nameChars x"
    by (auto simp: name_part_def all_in_iff)
  from p have U: "U = butlast U @ ''/''" by (metis append_butlast_last_id)
  from a not_delim_name have "CHR '':'' \<notin> set (butlast U)" "CHR ''@'' \<notin> set (butlast U)"
    by blast+
  then have "CHR ''@'' \<notin> set (butlast U @ ''/'')" "CHR '':'' \<notin> set (butlast U @ ''/'')"
    by simp_all
  with U show ?thesis by metis
qed

lemma count_le_one_cons:
  "xs = [] \<or> (\<exists>ys. xs = c # ys \<and> c \<notin> set ys) \<Longrightarrow> count_list xs c \<le> 1"
proof (cases xs)
  case Nil
  then show ?thesis by simp
next
  case (Cons a ys)
  assume "xs = [] \<or> (\<exists>ys. xs = c # ys \<and> c \<notin> set ys)"
  with Cons have "a = c" "c \<notin> set ys" by auto
  then have "count_list ys c = 0" by (simp add: count_list_0_iff)
  with Cons \<open>a = c\<close> show ?thesis by simp
qed

section \<open>The claims about the parser\<close>

text \<open>
  Claim C1 (round trip). For every reference that the anchored expression of the parser
  accepts, \<open>ShubParseReference\<close> succeeds, and putting the result together again with
  \<open>String\<close> (registry, user, container, tag, digest) gives the canonical form of the
  input: the text after the two-character prefix, with the default registry in front
  when the reference names no registry.
\<close>

theorem parse_roundtrip:
  assumes "full_match shubRegex src"
  shows "\<exists>uri. ShubParseReference src = Inr uri \<and> String uri = canonical src"
proof -
  from assms obtain R U C T D where p: "src = ''//'' @ R @ U @ C @ T @ D"
    "registry_part R" "name_part U" "container_part C" "tag_part T" "digest_part D"
    "ShubParseReference src =
       Inr \<lparr>registry = (if R = [] then defaultRegistry else R), user = U, container = C,
            tag = T, digest = D, defaultReg = (R = [])\<rparr>"
    by (rule parse_ok_parts)
  have "drop 2 src = R @ U @ C @ T @ D" using p(1) by simp
  then have "canonical src = (if R = [] then defaultRegistry else R) @ U @ C @ T @ D"
    using count_slash_parts [OF p(2-6)] by (simp add: canonical_def)
  then have "String \<lparr>registry = (if R = [] then defaultRegistry else R), user = U, container = C,
            tag = T, digest = D, defaultReg = (R = [])\<rparr> = canonical src"
    by (simp add: String_def)
  with p(7) show ?thesis by blast
qed

text \<open>The theorem above at a concrete reference.\<close>

theorem parse_roundtrip_witness:
  "full_match shubRegex ''//host/path/owner/container:mytag'' \<and>
   (\<exists>uri. ShubParseReference ''//host/path/owner/container:mytag'' = Inr uri \<and>
          String uri = canonical ''//host/path/owner/container:mytag'')"
proof -
  have h: "full_match shubRegex ''//host/path/owner/container:mytag''" by code_simp
  from parse_roundtrip [OF h] h show ?thesis by blast
qed

text \<open>
  Claim C2, as amended. The grammar of the parser is that of its own expression: an
  optional registry group of 1 to 64 characters out of \<^verbatim>\<open>[-a-zA-Z0-9/]\<close> and a slash
  (so at most 65 characters in all, possibly with empty segments), where the
  specification has any number of segments of 1 to 64 characters each. For every
  non-empty input, \<open>ShubParseReference\<close> succeeds when the whole input follows that
  grammar and returns the \<open>InvalidURI\<close> error otherwise; no partial match is accepted.
\<close>

theorem parse_accepts_iff_grammar:
  assumes "src \<noteq> []"
  shows "(shub_grammar src \<longrightarrow> (\<exists>uri. ShubParseReference src = Inr uri)) \<and>
         (\<not> shub_grammar src \<longrightarrow> ShubParseReference src = Inl (InvalidURI src))"
proof (intro conjI impI)
  assume "shub_grammar src"
  then have "full_match shubRegex src" by (simp only: regex_iff_grammar)
  then show "\<exists>uri. ShubParseReference src = Inr uri"
    by (rule parse_ok_parts) blast
next
  assume "\<not> shub_grammar src"
  then have "\<not> full_match shubRegex src" by (simp add: regex_iff_grammar)
  then show "ShubParseReference src = Inl (InvalidURI src)"
    using assms by (rule parse_no_match)
qed

text \<open>The amended claim at two inputs, one accepted and one rejected.\<close>

theorem parse_accepts_iff_grammar_witness:
  "''//a//o/c'' \<noteq> [] \<and> shub_grammar ''//a//o/c'' \<and>
   (\<exists>uri. ShubParseReference ''//a//o/c'' = Inr uri) \<and>
   ''//o'' \<noteq> [] \<and> \<not> shub_grammar ''//o'' \<and> ShubParseReference ''//o'' = Inl (InvalidURI ''//o'')"
proof -
  have a: "''//a//o/c'' \<noteq> []" and b: "''//o'' \<noteq> []" by simp_all
  have pa: "ShubParseReference ''//a//o/c'' =
      Inr \<lparr>registry = ''a//'', user = ''o/'', container = ''c'', tag = [], digest = [],
           defaultReg = False\<rparr>"
    by code_simp
  have pb: "ShubParseReference ''//o'' = Inl (InvalidURI ''//o'')" by code_simp
  from parse_accepts_iff_grammar [OF a] pa have ga: "shub_grammar ''//a//o/c''" by auto
  from parse_accepts_iff_grammar [OF b] pb have gb: "\<not> shub_grammar ''//o''" by auto
  from a b pa pb ga gb show ?thesis by simp
qed

text \<open>
  Claim C2 as stated fails: \<^verbatim>\<open>//a//o/c\<close> has an empty registry segment, so the grammar
  of the specification does not match it, and the parser accepts it.
\<close>

theorem spec_grammar_counterexample:
  "\<not> full_match specGrammar ''//a//o/c'' \<and>
   ShubParseReference ''//a//o/c'' =
      Inr \<lparr>registry = ''a//'', user = ''o/'', container = ''c'', tag = [], digest = [],
           defaultReg = False\<rparr>"
  by code_simp

text \<open>
  The empty input is outside the amended claim: the expression does not match, the
  text found is empty and so equal to the input, the check passes, and the slice
  \<^verbatim>\<open>src[2:]\<close> panics.
\<close>

lemma parse_empty_input: "ShubParseReference [] = Inl (Panic ''src[2:]'')"
  by code_simp

text \<open>
  Claim C7. The reference \<^verbatim>\<open>//host/path/owner/container:mytag@\<close> followed by any 32
  lowercase hexadecimal characters parses to the custom registry \<^verbatim>\<open>host/path/\<close>, the
  owner \<^verbatim>\<open>owner/\<close>, the container \<^verbatim>\<open>container\<close>, the tag \<^verbatim>\<open>:mytag\<close> and the digest
  \<^verbatim>\<open>@\<close> with those 32 characters.
\<close>

theorem parse_full_reference:
  assumes "length h = 32" "set h \<subseteq> set ''0123456789abcdef''"
  shows "ShubParseReference (''//host/path/owner/container:mytag@'' @ h) =
           Inr \<lparr>registry = ''host/path/'', user = ''owner/'', container = ''container'',
                tag = '':mytag'', digest = CHR ''@'' # h, defaultReg = False\<rparr>"
proof -
  have r: "registry_part ''host/path/''"
    by (simp add: registry_part_def all_in_def in_class_def registryChars_def)
  have u: "name_part ''owner/''"
    by (simp add: name_part_def all_in_def in_class_def nameChars_def)
  have c: "container_part ''container''"
    by (simp add: container_part_def all_in_def in_class_def containerChars_def)
  have t: "tag_part '':mytag''"
    by (simp add: tag_part_def all_in_def in_class_def tagChars_def)
  have "\<forall>c\<in>set h. in_class digestChars c" using assms(2) hex_in_class by blast
  then have d: "digest_part (CHR ''@'' # h)"
    using assms(1) by (simp add: digest_part_def all_in_iff)
  from parse_parts [OF r u c t d] show ?thesis by simp
qed

text \<open>The theorem above at a concrete reference.\<close>

theorem parse_full_reference_witness:
  "length ''0123456789abcdef0123456789abcdef'' = 32 \<and>
   set ''0123456789abcdef0123456789abcdef'' \<subseteq> set ''0123456789abcdef'' \<and>
   ShubParseReference ''//host/path/owner/container:mytag@0123456789abcdef0123456789abcdef'' =
     Inr \<lparr>registry = ''host/path/'', user = ''owner/'', container = ''container'',
          tag = '':mytag'', digest = ''@0123456789abcdef0123456789abcdef'', defaultReg = False\<rparr>"
proof -
  have l: "length ''0123456789abcdef0123456789abcdef'' = 32" by simp
  have s: "set ''0123456789abcdef0123456789abcdef'' \<subseteq> set ''0123456789abcdef''" by simp
  from parse_full_reference [OF l s] l s show ?thesis by simp
qed

text \<open>
  Claim C8 (invariant after a parse). Whenever \<open>ShubParseReference\<close> succeeds, the
  container is not empty, the tag is empty or begins with a colon, and the digest is
  empty or begins with an at-sign.
\<close>

theorem parse_invariant:
  assumes "ShubParseReference src = Inr uri"
  shows "container uri \<noteq> [] \<and>
         (tag uri = [] \<or> hd (tag uri) = CHR '':'') \<and>
         (digest uri = [] \<or> hd (digest uri) = CHR ''@'')"
proof -
  from assms have "full_match shubRegex src" by (rule parse_ok_match)
  then obtain R U C T D where p: 
    "container_part C" "tag_part T" "digest_part D"
    "ShubParseReference src =
       Inr \<lparr>registry = (if R = [] then defaultRegistry else R), user = U, container = C,
            tag = T, digest = D, defaultReg = (R = [])\<rparr>"
    by (rule parse_ok_parts)
  from p(4) assms have "container uri = C" "tag uri = T" "digest uri = D" by auto
  moreover have "C \<noteq> []" using container_part_shape [OF p(1)] by simp
  moreover have "T = [] \<or> hd T = CHR '':''" using tag_part_shape [OF p(2)] by auto
  moreover have "D = [] \<or> hd D = CHR ''@''" using digest_part_shape [OF p(3)] by auto
  ultimately show ?thesis by simp
qed

text \<open>The theorem above at a concrete reference.\<close>

theorem parse_invariant_witness:
  "ShubParseReference ''//owner/container:v1'' =
     Inr \<lparr>registry = defaultRegistry, user = ''owner/'', container = ''container'',
          tag = '':v1'', digest = [], defaultReg = True\<rparr> \<and>
   container \<lparr>registry = defaultRegistry, user = ''owner/'', container = ''container'',
          tag = '':v1'', digest = [], defaultReg = True\<rparr> \<noteq> []"
proof -
  have h: "ShubParseReference ''//owner/container:v1'' =
     Inr \<lparr>registry = defaultRegistry, user = ''owner/'', container = ''container'',
          tag = '':v1'', digest = [], defaultReg = True\<rparr>"
    by code_simp
  from parse_invariant [OF h] h show ?thesis by blast
qed

text \<open>
  Claim C9. Whenever \<open>ShubParseReference\<close> succeeds, the input after its two-character
  prefix has at most one at-sign and at most one colon, and the splits at the first
  at-sign and the first colon lose nothing: container, tag and digest together are the
  whole text after the last slash.
\<close>

theorem parse_single_delimiters:
  assumes "ShubParseReference src = Inr uri"
  shows "count_list (drop 2 src) CHR ''@'' \<le> 1 \<and>
         count_list (drop 2 src) CHR '':'' \<le> 1 \<and>
         container uri @ tag uri @ digest uri = last (SplitAfter CHR ''/'' (drop 2 src))"
proof -
  from assms have "full_match shubRegex src" by (rule parse_ok_match)
  then obtain R U C T D where p: "src = ''//'' @ R @ U @ C @ T @ D"
    "registry_part R" "name_part U" "container_part C" "tag_part T" "digest_part D"
    "ShubParseReference src =
       Inr \<lparr>registry = (if R = [] then defaultRegistry else R), user = U, container = C,
            tag = T, digest = D, defaultReg = (R = [])\<rparr>"
    by (rule parse_ok_parts)
  have dr: "drop 2 src = R @ U @ C @ T @ D" using p(1) by simp
  obtain u where u: "U = u @ ''/''" "CHR ''/'' \<notin> set u"
    using name_part_shape [OF p(3)] by blast
  note r = registry_part_shape [OF p(2)]
  note c = container_part_shape [OF p(4)]
  note t = tag_part_shape [OF p(5)]
  note d = digest_part_shape [OF p(6)]
  have un: "CHR ''@'' \<notin> set U" "CHR '':'' \<notin> set U"
    using name_part_delims [OF p(3)] by simp_all
  have zat: "count_list R CHR ''@'' = 0" "count_list U CHR ''@'' = 0"
      "count_list C CHR ''@'' = 0" "count_list T CHR ''@'' = 0"
    using r un c t by (simp_all add: count_list_0_iff)
  have dat: "count_list D CHR ''@'' \<le> 1"
    using d by (intro count_le_one_cons) simp
  have zco: "count_list R CHR '':'' = 0" "count_list U CHR '':'' = 0"
      "count_list C CHR '':'' = 0" "count_list D CHR '':'' = 0"
    using r un c d by (simp_all add: count_list_0_iff)
  have tco: "count_list T CHR '':'' \<le> 1"
    using t by (intro count_le_one_cons) simp
  have 1: "count_list (drop 2 src) CHR ''@'' \<le> 1" using zat dat by (simp add: dr)
  have 2: "count_list (drop 2 src) CHR '':'' \<le> 1" using zco tco by (simp add: dr)
  have "CHR ''/'' \<notin> set (C @ T @ D)" using c t d by simp
  then have "last (SplitAfter CHR ''/'' ((R @ u) @ ''/'' @ C @ T @ D)) = C @ T @ D"
    by (rule last_SplitAfter)
  then have "last (SplitAfter CHR ''/'' (drop 2 src)) = C @ T @ D" by (simp add: dr u(1))
  moreover from p(7) assms have "container uri = C" "tag uri = T" "digest uri = D" by auto
  ultimately show ?thesis using 1 2 by simp
qed

text \<open>The theorem above at a concrete reference.\<close>

theorem parse_single_delimiters_witness:
  "ShubParseReference ''//owner/container:v1'' =
     Inr \<lparr>registry = defaultRegistry, user = ''owner/'', container = ''container'',
          tag = '':v1'', digest = [], defaultReg = True\<rparr> \<and>
   count_list (drop 2 ''//owner/container:v1'') CHR '':'' \<le> 1 \<and>
   count_list (drop 2 ''//owner/container:v1'') CHR ''@'' \<le> 1"
proof -
  have h: "ShubParseReference ''//owner/container:v1'' =
     Inr \<lparr>registry = defaultRegistry, user = ''owner/'', container = ''container'',
          tag = '':v1'', digest = [], defaultReg = True\<rparr>"
    by code_simp
  from parse_single_delimiters [OF h] h show ?thesis by blast
qed

section \<open>The stages of Get and the workspace pointer\<close>

lemma RemoveAll_twice: "fst (RemoveAll p (fst (RemoveAll p fs))) = fst (RemoveAll p fs)"
  by (simp add: RemoveAll_def)

lemma RemoveAll_gone: "(q, n) \<in> set (fst (RemoveAll p fs)) \<Longrightarrow> \<not> is_under p q"
  by (auto simp: RemoveAll_def)

lemma decodeManifest_cp_b:
  "decodeManifest e res cp w = Inr (r, cp', w') \<Longrightarrow> cp_b cp' = cp_b cp"
  by (auto simp: decodeManifest_def Let_def split: option.splits prod.splits)

lemma decodeManifest_no_status:
  "decodeManifest e res cp w \<noteq> Inr (Some (StatusError s), cp', w')"
  by (auto simp: decodeManifest_def Let_def split: option.splits prod.splits)

lemma getManifest_cp_b:
  "getManifest e cp w = Inr (r, cp', w') \<Longrightarrow> cp_b cp' = cp_b cp"
  by (auto simp: getManifest_def Let_def dest: decodeManifest_cp_b
           split: option.splits sum.splits if_splits)

lemma fetchImage_cp_b:
  "fetchImage e cp w = Inr (r, cp', w') \<Longrightarrow> cp_b cp' = cp_b cp \<and> cp_b cp \<noteq> None"
  by (auto simp: fetchImage_def Let_def split: option.splits sum.splits if_splits prod.splits)

section \<open>The claims about the manifest lookup, the download and the orchestrator\<close>

text \<open>
  Claim C4. For a packer whose URI has \<open>defaultReg\<close> false, \<open>getManifest\<close> returns the nil
  error and leaves the packer as it was (a manifest that was unset stays unset) and
  the world as it was: no request is added to the log of the network.
\<close>

theorem getManifest_custom_registry:
  assumes "\<not> defaultReg (srcURI cp)"
  shows "getManifest e cp w = Inr (None, cp, w)"
  using assms by (simp add: getManifest_def)

text \<open>The theorem above at a concrete input.\<close>

theorem getManifest_custom_registry_witness:
  "\<not> defaultReg (srcURI zeroPacker) \<and>
   getManifest (mockEnv (mockResponse 200 ''200 OK'' 0 []) (mockResponse 200 ''200 OK'' 0 []))
     zeroPacker emptyWorld = Inr (None, zeroPacker, emptyWorld) \<and>
   manifest zeroPacker = None \<and> requests emptyWorld = []"
proof -
  have h: "\<not> defaultReg (srcURI zeroPacker)" by (simp add: zeroPacker_def zeroURI_def)
  from getManifest_custom_registry [OF h] h show ?thesis
    by (simp add: zeroPacker_def emptyWorld_def)
qed

text \<open>
  Claim C5, as amended. When the registry responds, \<open>getManifest\<close> returns the
  \<open>StatusError\<close> with the status text of the response exactly when the status code is
  not 200 (\<^verbatim>\<open>http.StatusOK\<close>); a 404 response with a well-formed status line gives an
  error whose message begins with \<^verbatim>\<open>404\<close>; a 200 response, and no other, goes on to
  the decoding of the manifest.
\<close>

theorem getManifest_status:
  assumes "defaultReg (srcURI cp)" "manifestURL (srcURI cp) = Inr url"
    "newRequestErr e url = None" "httpDo e url = Inr res"
  shows "(StatusCode res \<noteq> 200 \<longrightarrow>
            getManifest e cp w =
              Inr (Some (StatusError (Status res)), cp, w\<lparr>requests := requests w @ [url]\<rparr>)) \<and>
         (StatusCode res = 200 \<longrightarrow>
            getManifest e cp w = decodeManifest e res cp (w\<lparr>requests := requests w @ [url]\<rparr>)) \<and>
         ((\<exists>s cp' w'. getManifest e cp w = Inr (Some (StatusError s), cp', w')) \<longleftrightarrow>
            StatusCode res \<noteq> 200) \<and>
         (StatusCode res = 404 \<and> status_line_ok res \<longrightarrow>
            (\<exists>rest. getManifest e cp w =
               Inr (Some (StatusError (''404'' @ rest)), cp, w\<lparr>requests := requests w @ [url]\<rparr>)))"
proof -
  let ?w = "w\<lparr>requests := requests w @ [url]\<rparr>"
  have ne: "StatusCode res \<noteq> 200 \<Longrightarrow>
      getManifest e cp w = Inr (Some (StatusError (Status res)), cp, ?w)"
    using assms by (simp add: getManifest_def StatusOK_def)
  have eq: "StatusCode res = 200 \<Longrightarrow> getManifest e cp w = decodeManifest e res cp ?w"
    using assms by (simp add: getManifest_def StatusOK_def)
  have iff: "(\<exists>s cp' w'. getManifest e cp w = Inr (Some (StatusError s), cp', w')) \<longleftrightarrow>
      StatusCode res \<noteq> 200"
  proof (cases "StatusCode res = 200")
    case True
    with eq decodeManifest_no_status show ?thesis by simp
  next
    case False
    with ne show ?thesis by simp
  qed
  have nf: "\<exists>rest. getManifest e cp w = Inr (Some (StatusError (''404'' @ rest)), cp, ?w)"
    if c: "StatusCode res = 404" and ok: "status_line_ok res"
  proof -
    from c ok have "take 3 (Status res) = ''404''"
      by (simp add: status_line_ok_def decimal3_def digit_char_def char_of_def)
    then have "Status res = ''404'' @ drop 3 (Status res)"
      by (metis append_take_drop_id)
    moreover from c ne have "getManifest e cp w = Inr (Some (StatusError (Status res)), cp, ?w)"
      by simp
    ultimately show ?thesis by metis
  qed
  from ne eq iff nf show ?thesis by blast
qed

text \<open>The theorem above at a concrete input.\<close>

theorem getManifest_status_witness:
  "defaultReg (srcURI examplePacker) \<and>
   manifestURL (srcURI examplePacker) = Inr exampleURL \<and>
   StatusCode (mockResponse 404 ''404 Not Found'' 0 []) = 404 \<and>
   status_line_ok (mockResponse 404 ''404 Not Found'' 0 []) \<and>
   (\<exists>rest. getManifest (mockEnv (mockResponse 404 ''404 Not Found'' 0 []) (mockResponse 200 ''200 OK'' 0 []))
        examplePacker emptyWorld =
      Inr (Some (StatusError (''404'' @ rest)), examplePacker,
           emptyWorld\<lparr>requests := requests emptyWorld @ [exampleURL]\<rparr>))"
proof -
  let ?res = "mockResponse 404 ''404 Not Found'' 0 []"
  let ?e = "mockEnv ?res (mockResponse 200 ''200 OK'' 0 [])"
  have a: "defaultReg (srcURI examplePacker)"
    by (simp add: examplePacker_def exampleURI_def)
  have b: "manifestURL (srcURI examplePacker) = Inr exampleURL" by code_simp
  have c: "newRequestErr ?e exampleURL = None" by (simp add: mockEnv_def)
  have d: "httpDo ?e exampleURL = Inr ?res" by (simp add: mockEnv_def)
  have s: "StatusCode ?res = 404" by (simp add: mockResponse_def)
  have k: "status_line_ok ?res" by code_simp
  from getManifest_status [OF a b c d, of emptyWorld] s k
  have "\<exists>rest. getManifest ?e examplePacker emptyWorld =
      Inr (Some (StatusError (''404'' @ rest)), examplePacker,
           emptyWorld\<lparr>requests := requests emptyWorld @ [exampleURL]\<rparr>)"
    by blast
  with a b s k show ?thesis by blast
qed

text \<open>
  Claim C5 as stated fails at a 204 response: it is a success status of the 2xx range,
  and \<open>getManifest\<close> returns the status error instead of decoding the body.
\<close>

theorem getManifest_status_counterexample:
  "StatusCode (mockResponse 204 ''204 No Content'' 0 []) = 204 \<and>
   getManifest (mockEnv (mockResponse 204 ''204 No Content'' 0 []) (mockResponse 200 ''200 OK'' 0 []))
       examplePacker emptyWorld =
     Inr (Some (StatusError ''204 No Content''), examplePacker,
          \<lparr>files = [], requests = [exampleURL]\<rparr>) \<and>
   getManifest (mockEnv (mockResponse 204 ''204 No Content'' 0 []) (mockResponse 200 ''200 OK'' 0 []))
       examplePacker emptyWorld \<noteq>
     decodeManifest (mockEnv (mockResponse 204 ''204 No Content'' 0 []) (mockResponse 200 ''200 OK'' 0 []))
       (mockResponse 204 ''204 No Content'' 0 []) examplePacker
       \<lparr>files = [], requests = [exampleURL]\<rparr>"
  by code_simp

text \<open>
  Claim C6. Once the temporary file exists and the body of the download has been copied
  without a read error, \<open>fetchImage\<close> compares the bytes written with the declared
  content length. If they differ it returns \<open>SizeMismatch\<close>, records no path, and the
  file stays in the workspace with what was written; if they agree it succeeds,
  records the path of the file in \<open>tmpfile\<close>, and the file has exactly the declared
  number of bytes.
\<close>

theorem fetchImage_size_check:
  assumes "cp_b cp = Some bd"
    "TempFile (tempSuffix e) (files w) (Path bd) ''shub-container'' = Inr (name, fs1)"
    "manifest cp = Some m" "httpGet e (Image m) = Inr resp" "BodyErr resp = None"
  shows "(int (length (Body resp)) \<noteq> ContentLength resp \<longrightarrow>
            (\<exists>w'. fetchImage e cp w =
                     Inr (Some (SizeMismatch (ContentLength resp) (int (length (Body resp)))), cp, w') \<and>
                   map_of (files w') name = Some (File (Body resp)))) \<and>
         (int (length (Body resp)) = ContentLength resp \<longrightarrow>
            (\<exists>w'. fetchImage e cp w = Inr (None, cp\<lparr>tmpfile := name\<rparr>, w') \<and>
                   map_of (files w') name = Some (File (Body resp)) \<and>
                   int (length (Body resp)) = ContentLength resp))"
  using assms by (simp add: fetchImage_def Copy_def Let_def)

text \<open>The theorem above at a concrete input.\<close>

theorem fetchImage_size_check_witness:
  "BodyErr (mockResponse 200 ''200 OK'' 100 (replicate 80 CHR ''x'')) = None \<and>
   (\<exists>w'. fetchImage (mockEnv (mockResponse 200 ''200 OK'' 0 [])
                         (mockResponse 200 ''200 OK'' 100 (replicate 80 CHR ''x'')))
            (examplePacker\<lparr>manifest := Some \<lparr>Image = ''http://img'', Name = [], Tag = [], Version = []\<rparr>,
                           cp_b := Some \<lparr>Path = ''/tmp/b''\<rparr>\<rparr>)
            \<lparr>files = [(''/tmp/b'', Dir)], requests = []\<rparr> =
          Inr (Some (SizeMismatch 100 80),
               examplePacker\<lparr>manifest := Some \<lparr>Image = ''http://img'', Name = [], Tag = [], Version = []\<rparr>,
                             cp_b := Some \<lparr>Path = ''/tmp/b''\<rparr>\<rparr>, w') \<and>
        map_of (files w') ''/tmp/b/shub-container001'' = Some (File (replicate 80 CHR ''x'')))"
proof -
  let ?resp = "mockResponse 200 ''200 OK'' 100 (replicate 80 CHR ''x'')"
  let ?e = "mockEnv (mockResponse 200 ''200 OK'' 0 []) ?resp"
  let ?m = "\<lparr>Image = ''http://img'', Name = [], Tag = [], Version = []\<rparr>"
  let ?cp = "examplePacker\<lparr>manifest := Some ?m, cp_b := Some \<lparr>Path = ''/tmp/b''\<rparr>\<rparr>"
  let ?w = "\<lparr>files = [(''/tmp/b'', Dir)], requests = []\<rparr>"
  have a: "cp_b ?cp = Some \<lparr>Path = ''/tmp/b''\<rparr>" by simp
  have b: "TempFile (tempSuffix ?e) (files ?w) (Path \<lparr>Path = ''/tmp/b''\<rparr>) ''shub-container'' =
      Inr (''/tmp/b/shub-container001'', [(''/tmp/b/shub-container001'', File []), (''/tmp/b'', Dir)])"
    by (simp add: TempFile_def mockEnv_def Let_def)
  have c: "manifest ?cp = Some ?m" by simp
  have d: "httpGet ?e (Image ?m) = Inr ?resp" by (simp add: mockEnv_def)
  have f: "BodyErr ?resp = None" by (simp add: mockResponse_def)
  have n: "int (length (Body ?resp)) \<noteq> ContentLength ?resp" by (simp add: mockResponse_def)
  have l: "ContentLength ?resp = 100" "int (length (Body ?resp)) = 80" "Body ?resp = replicate 80 CHR ''x''"
    by (simp_all add: mockResponse_def)
  from fetchImage_size_check [OF a b c d f] n
  obtain w' where "fetchImage ?e ?cp ?w =
      Inr (Some (SizeMismatch (ContentLength ?resp) (int (length (Body ?resp)))), ?cp, w')"
      "map_of (files w') ''/tmp/b/shub-container001'' = Some (File (Body ?resp))"
    by blast
  then have "fetchImage ?e ?cp ?w = Inr (Some (SizeMismatch 100 80), ?cp, w') \<and>
      map_of (files w') ''/tmp/b/shub-container001'' = Some (File (replicate 80 CHR ''x''))"
    by (simp add: mockResponse_def)
  with f show ?thesis by blast
qed

lemma fetchImage_nil_manifest:
  assumes "manifest cp = None"
  shows "fetchImage e cp w =
           (case cp_b cp of
              None \<Rightarrow> Inl (Panic ''cp.b.Path'')
            | Some bd \<Rightarrow>
                (case TempFile (tempSuffix e) (files w) (Path bd) ''shub-container'' of
                   Inl err \<Rightarrow> Inl (Panic ''tmpfile.Name()'')
                 | Inr nf \<Rightarrow> Inl (Panic ''cp.manifest.Image'')))"
  using assms by (simp add: fetchImage_def split: option.splits sum.splits prod.splits)

lemma fetchImage_nil_manifest_panics:
  assumes "manifest cp = None"
  shows "\<exists>msg. fetchImage e cp w = Inl (Panic msg)"
  unfolding fetchImage_nil_manifest [OF assms]
  by (simp split: option.splits sum.splits)

lemma NewBundle_cases:
  "(\<exists>msg. NewBundle e w = (None, Some (BundleError msg), w)) \<or>
   (\<exists>w1. NewBundle e w = (Some \<lparr>Path = bundlePath e\<rparr>, None, w1))"
  by (simp add: NewBundle_def split: option.splits)

lemma parse_error_kind:
  "ShubParseReference src = Inl err \<Longrightarrow> err = InvalidURI src \<or> err = Panic ''src[2:]''"
  by (auto simp: ShubParseReference_def Let_def split: if_splits prod.splits)

text \<open>
  Claim C10. For a recipe whose reference parses with \<open>defaultReg\<close> false, on a packer
  whose manifest pointer is nil, \<open>Get\<close> never returns success. When the workspace and the
  temporary file are created, \<open>getManifest\<close> returns nil with the manifest still nil, and
  the read of \<^verbatim>\<open>cp.manifest.Image\<close> in \<open>fetchImage\<close> panics.
\<close>

theorem Get_custom_registry:
  assumes "ShubParseReference (''//'' @ header_get rcp ''from'') = Inr uri"
    "\<not> defaultReg uri" "manifest cp = None"
  shows "(\<forall>cp' w'. Get e rcp cp w \<noteq> Inr (None, cp', w')) \<and>
         (\<forall>bd w1 nm fs1.
            NewBundle e w = (Some bd, None, w1) \<and>
            TempFile (tempSuffix e) (files w1) (Path bd) ''shub-container'' = Inr (nm, fs1) \<longrightarrow>
              getManifest e (cp\<lparr>recipe := rcp, srcURI := uri, cp_b := Some bd\<rparr>) w1 =
                Inr (None, cp\<lparr>recipe := rcp, srcURI := uri, cp_b := Some bd\<rparr>, w1) \<and>
              manifest (cp\<lparr>recipe := rcp, srcURI := uri, cp_b := Some bd\<rparr>) = None \<and>
              Get e rcp cp w = Inl (Panic ''cp.manifest.Image''))"
proof (intro conjI allI impI)
  fix cp' w'
  have p: "ShubParseReference (CHR ''/'' # CHR ''/'' # header_get rcp ''from'') = Inr uri"
    using assms(1) by simp
  obtain bd err w1 where nb: "NewBundle e w = (bd, err, w1)" by (cases "NewBundle e w") auto
  let ?cp2 = "cp\<lparr>recipe := rcp, srcURI := uri, cp_b := bd\<rparr>"
  have gm: "getManifest e ?cp2 w1 = Inr (None, ?cp2, w1)"
    using assms(2) by (simp add: getManifest_def)
  have "manifest ?cp2 = None" using assms(3) by simp
  then obtain msg where fi: "fetchImage e ?cp2 w1 = Inl (Panic msg)"
    using fetchImage_nil_manifest_panics by blast
  show "Get e rcp cp w \<noteq> Inr (None, cp', w')"
    by (cases err) (simp_all add: Get_def Let_def p nb gm fi)
next
  fix bd w1 nm fs1
  let ?cp2 = "cp\<lparr>recipe := rcp, srcURI := uri, cp_b := Some bd\<rparr>"
  assume h: "NewBundle e w = (Some bd, None, w1) \<and>
    TempFile (tempSuffix e) (files w1) (Path bd) ''shub-container'' = Inr (nm, fs1)"
  show "getManifest e ?cp2 w1 = Inr (None, ?cp2, w1)"
    using assms(2) by (simp add: getManifest_def)
  show "manifest ?cp2 = None" using assms(3) by simp
  have gm: "getManifest e ?cp2 w1 = Inr (None, ?cp2, w1)"
    using assms(2) by (simp add: getManifest_def)
  have "manifest ?cp2 = None" using assms(3) by simp
  then have fi: "fetchImage e ?cp2 w1 = Inl (Panic ''cp.manifest.Image'')"
    using h by (simp add: fetchImage_nil_manifest)
  have p: "ShubParseReference (CHR ''/'' # CHR ''/'' # header_get rcp ''from'') = Inr uri"
    using assms(1) by simp
  show "Get e rcp cp w = Inl (Panic ''cp.manifest.Image'')"
    using h by (simp add: Get_def Let_def p gm fi)
qed

text \<open>The theorem above at a concrete input.\<close>

theorem Get_custom_registry_witness:
  "ShubParseReference (''//'' @ header_get \<lparr>Header = [(''from'', ''host/owner/container'')]\<rparr> ''from'') =
     Inr \<lparr>registry = ''host/'', user = ''owner/'', container = ''container'', tag = [], digest = [],
          defaultReg = False\<rparr> \<and>
   manifest zeroPacker = None \<and>
   Get (mockEnv (mockResponse 200 ''200 OK'' 0 []) (mockResponse 200 ''200 OK'' 0 []))
       \<lparr>Header = [(''from'', ''host/owner/container'')]\<rparr> zeroPacker emptyWorld =
     Inl (Panic ''cp.manifest.Image'')"
proof -
  let ?rcp = "\<lparr>Header = [(''from'', ''host/owner/container'')]\<rparr>"
  let ?uri = "\<lparr>registry = ''host/'', user = ''owner/'', container = ''container'', tag = [],
      digest = [], defaultReg = False\<rparr>"
  let ?e = "mockEnv (mockResponse 200 ''200 OK'' 0 []) (mockResponse 200 ''200 OK'' 0 [])"
  let ?bd = "\<lparr>Path = ''/tmp/sbuild-shub-1''\<rparr>"
  let ?w1 = "\<lparr>files = [(''/tmp/sbuild-shub-1'', Dir)], requests = []\<rparr>"
  have a: "ShubParseReference (''//'' @ header_get ?rcp ''from'') = Inr ?uri" by code_simp
  have b: "\<not> defaultReg ?uri" by simp
  have c: "manifest zeroPacker = None" by (simp add: zeroPacker_def)
  have n: "NewBundle ?e emptyWorld = (Some ?bd, None, ?w1)" by code_simp
  have t: "TempFile (tempSuffix ?e) (files ?w1) (Path ?bd) ''shub-container'' =
      Inr (''/tmp/sbuild-shub-1/shub-container001'',
           [(''/tmp/sbuild-shub-1/shub-container001'', File []), (''/tmp/sbuild-shub-1'', Dir)])"
    by code_simp
  from Get_custom_registry [OF a b c, of ?e emptyWorld] n t
  have "Get ?e ?rcp zeroPacker emptyWorld = Inl (Panic ''cp.manifest.Image'')" by blast
  with a c show ?thesis by blast
qed

text \<open>
  Claim C3, as amended. On a packer whose workspace pointer is set, \<open>CleanUp\<close> does not
  fail, removes everything under the workspace, and a second call on the result changes
  nothing and does not fail either. The pointer is set after every \<open>Get\<close> that returned
  success or an error of the manifest, download or packer stage.
\<close>

theorem CleanUp_idempotent:
  "(cp_b cp = Some bd \<longrightarrow>
      (\<exists>w1. CleanUp cp w = Inr w1 \<and> CleanUp cp w1 = Inr w1 \<and>
            (\<forall>q n. (q, n) \<in> set (files w1) \<longrightarrow> \<not> is_under (Path bd) q))) \<and>
   (Get e rcp cp0 w0 = Inr (r, cp', w') \<and> (\<forall>s. r \<noteq> Some (InvalidURI s)) \<and>
      (\<forall>s. r \<noteq> Some (BundleError s)) \<longrightarrow> cp_b cp' \<noteq> None)"
proof (intro conjI impI)
  assume b: "cp_b cp = Some bd"
  let ?w1 = "w\<lparr>files := fst (RemoveAll (Path bd) (files w))\<rparr>"
  have 1: "CleanUp cp w = Inr ?w1" using b by (simp add: CleanUp_def)
  have 2: "CleanUp cp ?w1 = Inr ?w1" using b by (simp add: CleanUp_def RemoveAll_twice)
  have 3: "\<forall>q n. (q, n) \<in> set (files ?w1) \<longrightarrow> \<not> is_under (Path bd) q"
    using RemoveAll_gone by simp
  from 1 2 3 show "\<exists>w1. CleanUp cp w = Inr w1 \<and> CleanUp cp w1 = Inr w1 \<and>
            (\<forall>q n. (q, n) \<in> set (files w1) \<longrightarrow> \<not> is_under (Path bd) q)"
    by blast
next
  assume h: "Get e rcp cp0 w0 = Inr (r, cp', w') \<and> (\<forall>s. r \<noteq> Some (InvalidURI s)) \<and>
      (\<forall>s. r \<noteq> Some (BundleError s))"
  let ?src = "''//'' @ header_get rcp ''from''"
  show "cp_b cp' \<noteq> None"
  proof (cases "ShubParseReference ?src")
    case (Inl err)
    then have "err = InvalidURI ?src \<or> err = Panic ''src[2:]''" by (rule parse_error_kind)
    moreover from Inl
    have "ShubParseReference (CHR ''/'' # CHR ''/'' # header_get rcp ''from'') = Inl err" by simp
    ultimately show ?thesis using h by (auto simp: Get_def Let_def)
  next
    case (Inr uri)
    then have p: "ShubParseReference (CHR ''/'' # CHR ''/'' # header_get rcp ''from'') = Inr uri"
      by simp
    from NewBundle_cases [of e w0] show ?thesis
    proof
      assume "\<exists>msg. NewBundle e w0 = (None, Some (BundleError msg), w0)"
      then obtain msg where "NewBundle e w0 = (None, Some (BundleError msg), w0)" by blast
      with p h show ?thesis by (auto simp: Get_def Let_def)
    next
      assume "\<exists>w1. NewBundle e w0 = (Some \<lparr>Path = bundlePath e\<rparr>, None, w1)"
      then obtain w1 where nb: "NewBundle e w0 = (Some \<lparr>Path = bundlePath e\<rparr>, None, w1)" by blast
      let ?cp2 = "cp0\<lparr>recipe := rcp, srcURI := uri, cp_b := Some \<lparr>Path = bundlePath e\<rparr>\<rparr>"
      have g: "Get e rcp cp0 w0 =
          (case getManifest e ?cp2 w1 of
             Inl p \<Rightarrow> Inl p
           | Inr (Some err', cp3, w2) \<Rightarrow> Inr (Some err', cp3, w2)
           | Inr (None, cp3, w2) \<Rightarrow>
               (case fetchImage e cp3 w2 of
                  Inl p \<Rightarrow> Inl p
                | Inr (Some err', cp4, w3) \<Rightarrow> Inr (Some err', cp4, w3)
                | Inr (None, cp4, w3) \<Rightarrow>
                    (let (lp, perr) = selectPacker e (tmpfile cp4) (cp_b cp4)
                     in Inr (map_option PackerError perr, cp4\<lparr>localPacker := lp\<rparr>, w3))))"
        by (simp add: Get_def Let_def p nb)
      show ?thesis
      proof (cases "getManifest e ?cp2 w1")
        case (Inl p)
        with g h show ?thesis by simp
      next
        case gm: (Inr res)
        obtain r3 cp3 w2 where res: "res = (r3, cp3, w2)" by (cases res) auto
        from gm res have c3: "cp_b cp3 = cp_b ?cp2" by (auto dest: getManifest_cp_b)
        show ?thesis
        proof (cases r3)
          case (Some err')
          with g gm res h have "cp' = cp3" by simp
          with c3 show ?thesis by simp
        next
          case None
          show ?thesis
          proof (cases "fetchImage e cp3 w2")
            case (Inl p)
            with g gm res None h show ?thesis by simp
          next
            case fi: (Inr res4)
            obtain r4 cp4 w3 where res4: "res4 = (r4, cp4, w3)" by (cases res4) auto
            from fi res4 have c4: "cp_b cp4 \<noteq> None" by (auto dest: fetchImage_cp_b)
            show ?thesis
            proof (cases r4)
              case (Some err')
              with g gm res None fi res4 h have "cp' = cp4" by simp
              with c4 show ?thesis by simp
            next
              case n4: None
              obtain lp perr where sp: "selectPacker e (tmpfile cp4) (cp_b cp4) = (lp, perr)"
                by (cases "selectPacker e (tmpfile cp4) (cp_b cp4)") auto
              with g gm res None fi res4 n4 h have "cp' = cp4\<lparr>localPacker := lp\<rparr>" by simp
              with c4 show ?thesis by simp
            qed
          qed
        qed
      qed
    qed
  qed
qed

text \<open>The theorem above at a concrete input.\<close>

theorem CleanUp_idempotent_witness:
  "cp_b (examplePacker\<lparr>cp_b := Some \<lparr>Path = ''/tmp/b''\<rparr>\<rparr>) = Some \<lparr>Path = ''/tmp/b''\<rparr> \<and>
   (\<exists>w1. CleanUp (examplePacker\<lparr>cp_b := Some \<lparr>Path = ''/tmp/b''\<rparr>\<rparr>)
             \<lparr>files = [(''/tmp/b/shub-container001'', File ''abc''), (''/tmp/b'', Dir), (''/tmp/c'', Dir)],
              requests = []\<rparr> = Inr w1 \<and>
         CleanUp (examplePacker\<lparr>cp_b := Some \<lparr>Path = ''/tmp/b''\<rparr>\<rparr>) w1 = Inr w1)"
proof -
  have a: "cp_b (examplePacker\<lparr>cp_b := Some \<lparr>Path = ''/tmp/b''\<rparr>\<rparr>) = Some \<lparr>Path = ''/tmp/b''\<rparr>"
    by simp
  from CleanUp_idempotent [of "examplePacker\<lparr>cp_b := Some \<lparr>Path = ''/tmp/b''\<rparr>\<rparr>" "\<lparr>Path = ''/tmp/b''\<rparr>"
      "\<lparr>files = [(''/tmp/b/shub-container001'', File ''abc''), (''/tmp/b'', Dir), (''/tmp/c'', Dir)],
              requests = []\<rparr>"] a
  show ?thesis by blast
qed

text \<open>
  Claim C3 as stated fails on a packer whose \<open>Get\<close> was never called: its workspace
  pointer is nil and \<open>CleanUp\<close> panics on \<^verbatim>\<open>cp.b.Path\<close>.
\<close>

theorem CleanUp_counterexample:
  "cp_b zeroPacker = None \<and> CleanUp zeroPacker emptyWorld = Inl (Panic ''cp.b.Path'')"
  by code_simp

end
